theory Spec2Isabelle
  imports Complex_Main "HOL-Library.Word" "HOL-Library.AList" "HOL-Library.Log_Nat"
begin

unbundle bit_operations_syntax

section \<open>Conventions of the embedding\<close>

text \<open>
  The development embeds the rendering core of \<^verbatim>\<open>ttk/backends/coregraphics_render.cpp\<close>.

  \<^item> A finite \<^verbatim>\<open>CGFloat\<close> or \<^verbatim>\<open>double\<close> value is modelled by the \<^typ>\<open>real\<close> number it
    denotes. In the mapping of the dirty rectangle to cells every operation is rounded to
    the nearest double, as the hardware does, and a result that is not finite (an infinity
    or a NaN) is \<^term>\<open>None\<close>. The cell positions and the batcher are modelled with exact
    arithmetic.
  \<^item> \<^verbatim>\<open>uint32_t\<close>, \<^verbatim>\<open>uint64_t\<close> and \<^verbatim>\<open>char16_t\<close> values are words of that width.
  \<^item> \<^verbatim>\<open>int\<close> values are modelled by \<^typ>\<open>int\<close>; where the source converts a
    \<^verbatim>\<open>double\<close> to \<^verbatim>\<open>int\<close> or subtracts two \<^verbatim>\<open>int\<close>s the 32-bit range is
    written out.
  \<^item> Native handles (\<^verbatim>\<open>CGColorRef\<close>, \<^verbatim>\<open>CTFontRef\<close>, \<^verbatim>\<open>CFDictionaryRef\<close>) are
    natural numbers; a null handle is \<^term>\<open>None\<close>.
\<close>

type_synonym CGFloat = real
type_synonym handle = nat

text \<open>The literal \<^verbatim>\<open>0.01f\<close>: the single-precision value nearest to one hundredth,
  \<open>10737418 / 2^30\<close>, which is what the comparisons against \<^verbatim>\<open>CGFloat\<close> use.\<close>

definition eps_001f :: real where
  "eps_001f = 5368709 / 536870912"

section \<open>RectangleBatcher\<close>

record RectBatch =
  rb_x :: CGFloat
  rb_y :: CGFloat
  rb_width :: CGFloat
  rb_height :: CGFloat
  rb_bg_rgb :: "32 word"

record RectangleBatcher =
  batches :: "RectBatch list"
  current_batch :: "RectBatch option"

text \<open>The constructor: no completed batch, no open batch.\<close>

definition RectangleBatcher_new :: RectangleBatcher where
  "RectangleBatcher_new = \<lparr>batches = [], current_batch = None\<rparr>"

definition add_cell ::
  "CGFloat \<Rightarrow> CGFloat \<Rightarrow> CGFloat \<Rightarrow> CGFloat \<Rightarrow> 32 word \<Rightarrow> RectangleBatcher \<Rightarrow> RectangleBatcher"
where
  "add_cell x y width height bg_rgb b =
     (let new_batch = \<lparr>rb_x = x, rb_y = y, rb_width = width, rb_height = height,
                        rb_bg_rgb = bg_rgb\<rparr>
      in case current_batch b of
           Some batch \<Rightarrow>
             (let same_row = (\<bar>rb_y batch - y\<bar> < eps_001f);
                  same_color = (rb_bg_rgb batch = bg_rgb);
                  adjacent = (\<bar>(rb_x batch + rb_width batch) - x\<bar> < eps_001f)
              in if same_row \<and> same_color \<and> adjacent
                 then b\<lparr>current_batch := Some (batch\<lparr>rb_width := rb_width batch + width\<rparr>)\<rparr>
                 else b\<lparr>batches := batches b @ [batch], current_batch := Some new_batch\<rparr>)
         | None \<Rightarrow> b\<lparr>current_batch := Some new_batch\<rparr>)"

definition finish_row :: "RectangleBatcher \<Rightarrow> RectangleBatcher" where
  "finish_row b =
     (case current_batch b of
        Some batch \<Rightarrow> b\<lparr>batches := batches b @ [batch], current_batch := None\<rparr>
      | None \<Rightarrow> b)"

text \<open>\<^verbatim>\<open>get_batches\<close> closes the open batch and returns the completed batches; the
  batcher after the call is the second component.\<close>

definition get_batches :: "RectangleBatcher \<Rightarrow> RectBatch list \<times> RectangleBatcher" where
  "get_batches b = (let b' = finish_row b in (batches b', b'))"






section \<open>Double-precision arithmetic\<close>

text \<open>
  A finite double is a real number \<open>m * 2^e\<close> with \<open>\<bar>m\<bar> < 2^53\<close> and \<open>- 1074 \<le> e \<le> 971\<close>.
  The result of an arithmetic operation is the exact result rounded to the nearest double,
  ties going to the double with an even significand (the default rounding mode of IEEE 754);
  a result whose rounding reaches \<open>2^1024\<close> in magnitude overflows to an infinity.
\<close>

text \<open>Rounding of a real number to the nearest integer, ties to even.\<close>

definition round_half_even :: "real \<Rightarrow> int" where
  "round_half_even v =
     (let f = \<lfloor>v\<rfloor> in
      if v - real_of_int f < 1 / 2 then f
      else if 1 / 2 < v - real_of_int f then f + 1
      else if even f then f else f + 1)"

text \<open>The exponent of the spacing of the doubles around \<open>x\<close>: \<open>\<lfloor>log\<^sub>2 \<bar>x\<bar>\<rfloor> - 52\<close>, and
  \<open>- 1074\<close> in the subnormal range. The binary logarithm is read off the bit length of
  \<open>\<lfloor>\<bar>x\<bar> * 2^1074\<rfloor>\<close>.\<close>

definition subnormal_scale :: real where
  "subnormal_scale = 2 ^ 1074"

definition ulp_exponent :: "real \<Rightarrow> int" where
  "ulp_exponent x = max (- 1074) (bitlen \<lfloor>\<bar>x\<bar> * subnormal_scale\<rfloor> - 1127)"

definition round_to_double :: "real \<Rightarrow> real" where
  "round_to_double x =
     real_of_int (round_half_even (x / 2 powi ulp_exponent x)) * 2 powi ulp_exponent x"

definition overflow_threshold :: real where
  "overflow_threshold = 2 ^ 1024"

definition cg_round :: "real \<Rightarrow> CGFloat option" where
  "cg_round x =
     (let y = round_to_double x in if \<bar>y\<bar> < overflow_threshold then Some y else None)"

text \<open>The real numbers that are finite doubles.\<close>

definition is_double :: "real \<Rightarrow> bool" where
  "is_double x = (cg_round x = Some x)"

text \<open>Subtraction, addition and division of \<^verbatim>\<open>CGFloat\<close>s. An operand that is not finite
  gives a result that is not finite, and so does a zero divisor.\<close>

definition cg_sub :: "CGFloat \<Rightarrow> CGFloat \<Rightarrow> CGFloat option" where
  "cg_sub a b = cg_round (a - b)"

definition cg_add :: "CGFloat option \<Rightarrow> CGFloat \<Rightarrow> CGFloat option" where
  "cg_add a b = (case a of None \<Rightarrow> None | Some v \<Rightarrow> cg_round (v + b))"

definition cg_div :: "CGFloat option \<Rightarrow> CGFloat \<Rightarrow> CGFloat option" where
  "cg_div a b =
     (case a of None \<Rightarrow> None | Some v \<Rightarrow> if b = 0 then None else cg_round (v / b))"

section \<open>Coordinate transformation\<close>

record CGRect =
  origin_x :: CGFloat
  origin_y :: CGFloat
  size_width :: CGFloat
  size_height :: CGFloat

record CellRect =
  start_row :: int
  end_row :: int
  start_col :: int
  end_col :: int

definition ttk_to_cg_y :: "int \<Rightarrow> int \<Rightarrow> CGFloat \<Rightarrow> CGFloat" where
  "ttk_to_cg_y row rows char_height = real_of_int (rows - row - 1) * char_height"

subsection \<open>Conversions from floating point to \<^verbatim>\<open>int\<close>\<close>

definition int_min :: int where "int_min = - 2147483648"
definition int_max :: int where "int_max = 2147483647"

text \<open>Two's complement wrap-around of a mathematical integer into the 32-bit range.\<close>

definition wrap_int :: "int \<Rightarrow> int" where
  "wrap_int z = (z + 2147483648) mod 4294967296 - 2147483648"

text \<open>\<^verbatim>\<open>std::floor\<close> and \<^verbatim>\<open>std::ceil\<close> of a double; the result of either is a double.\<close>

definition std_floor :: "CGFloat option \<Rightarrow> CGFloat option" where
  "std_floor q = map_option (\<lambda>v. real_of_int \<lfloor>v\<rfloor>) q"

definition std_ceil :: "CGFloat option \<Rightarrow> CGFloat option" where
  "std_ceil q = map_option (\<lambda>v. real_of_int \<lceil>v\<rceil>) q"

text \<open>\<^verbatim>\<open>static_cast<int>\<close> of a \<^verbatim>\<open>double\<close> truncates toward zero when the truncated
  value fits in an \<^verbatim>\<open>int\<close>. Otherwise (value too large, infinity, NaN) the language
  leaves the result open; the model takes it from the parameter \<open>ub\<close>, wrapped into the
  32-bit range, so that every theorem quantified over \<open>ub\<close> holds whatever the platform
  does there.\<close>

definition static_cast_int :: "(CGFloat option \<Rightarrow> int) \<Rightarrow> CGFloat option \<Rightarrow> int" where
  "static_cast_int ub q =
     (case q of
        None \<Rightarrow> wrap_int (ub None)
      | Some v \<Rightarrow>
          if - 2147483649 < v \<and> v < 2147483648
          then (if 0 \<le> v then \<lfloor>v\<rfloor> else \<lceil>v\<rceil>)
          else wrap_int (ub (Some v)))"

text \<open>Subtraction of two \<^verbatim>\<open>int\<close>s, wrapping on overflow.\<close>

definition int_sub :: "int \<Rightarrow> int \<Rightarrow> int" where
  "int_sub a b = wrap_int (a - b)"

subsection \<open>\<^verbatim>\<open>calculate_dirty_cells\<close>\<close>

definition calculate_dirty_cells ::
  "(CGFloat option \<Rightarrow> int) \<Rightarrow> CGRect \<Rightarrow> CGFloat \<Rightarrow> CGFloat \<Rightarrow> int \<Rightarrow> int \<Rightarrow>
   CGFloat \<Rightarrow> CGFloat \<Rightarrow> CellRect"
where
  "calculate_dirty_cells ub dirty_rect char_width char_height rows cols offset_x offset_y =
     (let grid_x = cg_sub (origin_x dirty_rect) offset_x;
          grid_y = cg_sub (origin_y dirty_rect) offset_y;
          grid_right = cg_add grid_x (size_width dirty_rect);
          grid_top = cg_add grid_y (size_height dirty_rect);
          start_col0 = static_cast_int ub (std_floor (cg_div grid_x char_width));
          end_col0 = static_cast_int ub (std_ceil (cg_div grid_right char_width));
          bottom_row = int_sub rows (static_cast_int ub (std_ceil (cg_div grid_top char_height)));
          top_row = int_sub rows (static_cast_int ub (std_floor (cg_div grid_y char_height)));
          start_col1 = max 0 (min start_col0 cols);
          end_col1 = max 0 (min end_col0 cols);
          start_row1 = max 0 (min bottom_row rows);
          end_row1 = max 0 (min top_row rows)
      in if start_row1 > end_row1
         then \<lparr>start_row = end_row1, end_row = start_row1,
               start_col = start_col1, end_col = end_col1\<rparr>
         else \<lparr>start_row = start_row1, end_row = end_row1,
               start_col = start_col1, end_col = end_col1\<rparr>)"

text \<open>The four quotients of a call, as the source computes them: the left and the right
  edge of the rectangle, relative to \<open>offset_x\<close>, in cell widths, and its bottom and its top
  edge, relative to \<open>offset_y\<close>, in cell heights.\<close>

definition left_quotient :: "CGRect \<Rightarrow> CGFloat \<Rightarrow> CGFloat \<Rightarrow> CGFloat option" where
  "left_quotient r char_width offset_x = cg_div (cg_sub (origin_x r) offset_x) char_width"

definition right_quotient :: "CGRect \<Rightarrow> CGFloat \<Rightarrow> CGFloat \<Rightarrow> CGFloat option" where
  "right_quotient r char_width offset_x =
     cg_div (cg_add (cg_sub (origin_x r) offset_x) (size_width r)) char_width"

definition bottom_quotient :: "CGRect \<Rightarrow> CGFloat \<Rightarrow> CGFloat \<Rightarrow> CGFloat option" where
  "bottom_quotient r char_height offset_y = cg_div (cg_sub (origin_y r) offset_y) char_height"

definition top_quotient :: "CGRect \<Rightarrow> CGFloat \<Rightarrow> CGFloat \<Rightarrow> CGFloat option" where
  "top_quotient r char_height offset_y =
     cg_div (cg_add (cg_sub (origin_y r) offset_y) (size_height r)) char_height"

text \<open>The conversions of a call are defined when the four quotients are finite, their
  floors and ceilings fit in an \<^verbatim>\<open>int\<close>, and so do the two row differences.\<close>

definition fits_int :: "int \<Rightarrow> bool" where
  "fits_int z = (int_min \<le> z \<and> z \<le> int_max)"

definition conversions_defined ::
  "CGRect \<Rightarrow> CGFloat \<Rightarrow> CGFloat \<Rightarrow> int \<Rightarrow> CGFloat \<Rightarrow> CGFloat \<Rightarrow> bool"
where
  "conversions_defined dirty_rect char_width char_height rows offset_x offset_y =
     (case (left_quotient dirty_rect char_width offset_x,
            right_quotient dirty_rect char_width offset_x,
            top_quotient dirty_rect char_height offset_y,
            bottom_quotient dirty_rect char_height offset_y) of
        (Some ql, Some qr, Some qt, Some qb) \<Rightarrow>
          fits_int \<lfloor>ql\<rfloor> \<and> fits_int \<lceil>qr\<rceil> \<and> fits_int \<lceil>qt\<rceil> \<and> fits_int \<lfloor>qb\<rfloor> \<and>
          fits_int (rows - \<lceil>qt\<rceil>) \<and> fits_int (rows - \<lfloor>qb\<rfloor>)
      | _ \<Rightarrow> False)"


text \<open>The rectangles that share no interior point with the pixel area of the grid (width
  and height not negative), in exact geometry.\<close>

definition outside_grid ::
  "CGRect \<Rightarrow> CGFloat \<Rightarrow> CGFloat \<Rightarrow> int \<Rightarrow> int \<Rightarrow> CGFloat \<Rightarrow> CGFloat \<Rightarrow> bool"
where
  "outside_grid r char_width char_height rows cols offset_x offset_y =
     (0 \<le> size_width r \<and> 0 \<le> size_height r \<and>
      (origin_x r + size_width r \<le> offset_x \<or>
       offset_x + real_of_int cols * char_width \<le> origin_x r \<or>
       origin_y r + size_height r \<le> offset_y \<or>
       offset_y + real_of_int rows * char_height \<le> origin_y r))"




definition clamp_to :: "int \<Rightarrow> int \<Rightarrow> int" where
  "clamp_to hi z = max 0 (min z hi)"






section \<open>Native collaborators and errors\<close>

text \<open>The CoreGraphics / CoreText / CoreFoundation calls the caches make are parameters of
  the model. A call that returns a null pointer returns \<^term>\<open>None\<close>.\<close>

record natives =
  color_space_create :: "handle option"
  cg_color_create :: "8 word \<Rightarrow> 8 word \<Rightarrow> 8 word \<Rightarrow> CGFloat \<Rightarrow> handle option"
  font_create_bold_copy :: "handle \<Rightarrow> handle option"
  cf_number_create :: "handle option"
  cf_dictionary_create :: "handle \<Rightarrow> handle \<Rightarrow> handle option \<Rightarrow> handle option"
  font_get_glyphs :: "handle \<Rightarrow> 16 word list \<Rightarrow> bool"
  font_cascade_list :: "handle \<Rightarrow> handle list option"
  font_create_with_descriptor :: "handle \<Rightarrow> handle option"

text \<open>The \<^verbatim>\<open>std::runtime_error\<close>s the caches throw, by their message.\<close>

datatype cache_error =
    Failed_to_create_RGB_color_space
  | Failed_to_create_CGColor
  | Failed_to_get_font_from_FontCache
  | Failed_to_get_color_from_ColorCache
  | Failed_to_create_underline_style_number
  | Failed_to_create_attribute_dictionary

text \<open>\<^verbatim>\<open>size_t\<close> counters are 64 bits wide; \<^verbatim>\<open>c++\<close> wraps at \<^verbatim>\<open>SIZE_MAX\<close>.\<close>

definition SIZE_MAX :: nat where
  "SIZE_MAX = 18446744073709551615"

definition size_t_incr :: "nat \<Rightarrow> nat" where
  "size_t_incr c = (c + 1) mod (SIZE_MAX + 1)"

section \<open>ColorCache\<close>

text \<open>The two \<^verbatim>\<open>unordered_map\<close>s are association lists with distinct keys; the order of a
  list stands for the (unspecified) iteration order of the map.\<close>

record ColorCache =
  cc_cache :: "(32 word \<times> handle) list"
  cc_max_size :: nat
  cc_access_order :: "(32 word \<times> nat) list"
  cc_access_counter :: nat

definition ColorCache_new :: "nat \<Rightarrow> ColorCache" where
  "ColorCache_new max_size =
     \<lparr>cc_cache = [], cc_max_size = max_size, cc_access_order = [], cc_access_counter = 0\<rparr>"

definition pack_rgb :: "8 word \<Rightarrow> 8 word \<Rightarrow> 8 word \<Rightarrow> 32 word" where
  "pack_rgb r g b = push_bit 16 (ucast r) OR push_bit 8 (ucast g) OR ucast b"

text \<open>The scan for the least recently used entry: \<open>(lru_key, min_access)\<close> starts at
  \<open>(0, SIZE_MAX)\<close> and moves to every entry with a strictly smaller access stamp.\<close>

fun lru_scan :: "(32 word \<times> nat) list \<Rightarrow> 32 word \<times> nat \<Rightarrow> 32 word \<times> nat" where
  "lru_scan [] acc = acc"
| "lru_scan (entry # es) acc =
     lru_scan es (if snd entry < snd acc then (fst entry, snd entry) else acc)"

definition evict_lru :: "ColorCache \<Rightarrow> ColorCache" where
  "evict_lru s =
     (let lru_key = fst (lru_scan (cc_access_order s) (0, SIZE_MAX))
      in case map_of (cc_cache s) lru_key of
           Some c \<Rightarrow> s\<lparr>cc_cache := AList.delete lru_key (cc_cache s),
                        cc_access_order := AList.delete lru_key (cc_access_order s)\<rparr>
         | None \<Rightarrow> s)"

definition get_color ::
  "natives \<Rightarrow> 8 word \<Rightarrow> 8 word \<Rightarrow> 8 word \<Rightarrow> CGFloat \<Rightarrow> ColorCache \<Rightarrow>
   (cache_error + handle) \<times> ColorCache"
where
  "get_color nv r g b alpha s =
     (let key = pack_rgb r g b
      in case map_of (cc_cache s) key of
           Some c \<Rightarrow>
             (Inr c, s\<lparr>cc_access_order := AList.update key (cc_access_counter s) (cc_access_order s),
                        cc_access_counter := size_t_incr (cc_access_counter s)\<rparr>)
         | None \<Rightarrow>
             (case color_space_create nv of
                None \<Rightarrow> (Inl Failed_to_create_RGB_color_space, s)
              | Some color_space \<Rightarrow>
                  (case cg_color_create nv r g b alpha of
                     None \<Rightarrow> (Inl Failed_to_create_CGColor, s)
                   | Some color \<Rightarrow>
                       (let s1 = (if length (cc_cache s) \<ge> cc_max_size s then evict_lru s else s)
                        in (Inr color,
                            s1\<lparr>cc_cache := AList.update key color (cc_cache s1),
                                cc_access_order :=
                                  AList.update key (cc_access_counter s1) (cc_access_order s1),
                                cc_access_counter := size_t_incr (cc_access_counter s1)\<rparr>)))))"

definition cc_clear :: "ColorCache \<Rightarrow> ColorCache" where
  "cc_clear s = s\<lparr>cc_cache := [], cc_access_order := [], cc_access_counter := 0\<rparr>"

definition cc_size :: "ColorCache \<Rightarrow> nat" where
  "cc_size s = length (cc_cache s)"

text \<open>Operations on a colour cache, and a run of them. A failed \<^verbatim>\<open>get_color\<close> throws; the
  run goes on with the cache as the throw left it.\<close>

datatype cc_op = Get_color "8 word" "8 word" "8 word" CGFloat | Clear

fun cc_apply :: "natives \<Rightarrow> ColorCache \<Rightarrow> cc_op \<Rightarrow> ColorCache" where
  "cc_apply nv s (Get_color r g b alpha) = snd (get_color nv r g b alpha s)"
| "cc_apply nv s Clear = cc_clear s"

definition cc_run :: "natives \<Rightarrow> cc_op list \<Rightarrow> ColorCache \<Rightarrow> ColorCache" where
  "cc_run nv ops s = foldl (cc_apply nv) s ops"

definition cc_keys :: "ColorCache \<Rightarrow> 32 word set" where
  "cc_keys s = fst ` set (cc_cache s)"

definition cc_order_keys :: "ColorCache \<Rightarrow> 32 word set" where
  "cc_order_keys s = fst ` set (cc_access_order s)"

text \<open>Requests for a list of colours, each with the default alpha.\<close>

definition gets :: "(8 word \<times> 8 word \<times> 8 word) list \<Rightarrow> cc_op list" where
  "gets cs = map (\<lambda>(r, g, b). Get_color r g b 1) cs"

definition rgb_key :: "8 word \<times> 8 word \<times> 8 word \<Rightarrow> 32 word" where
  "rgb_key c = (case c of (r, g, b) \<Rightarrow> pack_rgb r g b)"

definition creates_all :: "natives \<Rightarrow> (8 word \<times> 8 word \<times> 8 word) list \<Rightarrow> bool" where
  "creates_all nv cs =
     (color_space_create nv \<noteq> None \<and>
      list_all (\<lambda>(r, g, b). cg_color_create nv r g b 1 \<noteq> None) cs)"

section \<open>FontCache\<close>

text \<open>The base font is never null: \<^verbatim>\<open>initialize_caches\<close> throws before it constructs the
  cache otherwise. A cached font is the bold copy or, when that cannot be made, the base
  font.\<close>

record FontCache =
  fc_base_font :: handle
  fc_cache :: "int \<rightharpoonup> handle"

definition FontCache_new :: "handle \<Rightarrow> FontCache" where
  "FontCache_new base_font = \<lparr>fc_base_font = base_font, fc_cache = Map.empty\<rparr>"

definition get_font :: "natives \<Rightarrow> int \<Rightarrow> FontCache \<Rightarrow> handle option \<times> FontCache" where
  "get_font nv attributes s =
     (case fc_cache s attributes of
        Some font \<Rightarrow> (Some font, s)
      | None \<Rightarrow>
          (let font =
                 (if attributes AND 1 \<noteq> 0
                  then (case font_create_bold_copy nv (fc_base_font s) of
                          Some bold_font \<Rightarrow> bold_font
                        | None \<Rightarrow> fc_base_font s)
                  else fc_base_font s)
           in (Some font, s\<lparr>fc_cache := (fc_cache s)(attributes \<mapsto> font)\<rparr>)))"

definition fc_clear :: "FontCache \<Rightarrow> FontCache" where
  "fc_clear s = s\<lparr>fc_cache := Map.empty\<rparr>"

section \<open>AttributeDictCache\<close>

text \<open>An attribute dictionary: the handle \<^verbatim>\<open>CFDictionaryCreate\<close> returned, with the font, the
  colour and the underline flag stored in it.\<close>

record attr_dict =
  ad_handle :: handle
  ad_font :: handle
  ad_color :: handle
  ad_underline :: bool

text \<open>The cache holds pointers to the font cache and the colour cache; the model keeps
  the two caches inside its state.\<close>

record AttributeDictCache =
  adc_font_cache :: FontCache
  adc_color_cache :: ColorCache
  adc_cache :: "64 word \<rightharpoonup> attr_dict"
  adc_hits :: nat
  adc_misses :: nat

definition AttributeDictCache_new :: "FontCache \<Rightarrow> ColorCache \<Rightarrow> AttributeDictCache" where
  "AttributeDictCache_new fc cc =
     \<lparr>adc_font_cache = fc, adc_color_cache = cc, adc_cache = Map.empty,
      adc_hits = 0, adc_misses = 0\<rparr>"

definition make_key :: "int \<Rightarrow> 32 word \<Rightarrow> bool \<Rightarrow> 64 word" where
  "make_key font_attributes color_rgb underline =
     (let key0 = (ucast color_rgb :: 64 word);
          key1 = key0 OR push_bit 32 (word_of_int (font_attributes AND 2147483647));
          key2 = (if underline then key1 OR push_bit 63 1 else key1)
      in key2)"

definition get_attributes ::
  "natives \<Rightarrow> int \<Rightarrow> 32 word \<Rightarrow> bool \<Rightarrow> AttributeDictCache \<Rightarrow>
   (cache_error + attr_dict) \<times> AttributeDictCache"
where
  "get_attributes nv font_attributes color_rgb underline s =
     (let key = make_key font_attributes color_rgb underline
      in case adc_cache s key of
           Some d \<Rightarrow> (Inr d, s\<lparr>adc_hits := size_t_incr (adc_hits s)\<rparr>)
         | None \<Rightarrow>
             (let s1 = s\<lparr>adc_misses := size_t_incr (adc_misses s)\<rparr>;
                  (font_opt, fc') = get_font nv font_attributes (adc_font_cache s1);
                  s2 = s1\<lparr>adc_font_cache := fc'\<rparr>
              in case font_opt of
                   None \<Rightarrow> (Inl Failed_to_get_font_from_FontCache, s2)
                 | Some font \<Rightarrow>
                     (let r = (ucast (drop_bit 16 color_rgb AND 255) :: 8 word);
                          g = (ucast (drop_bit 8 color_rgb AND 255) :: 8 word);
                          b = (ucast (color_rgb AND 255) :: 8 word);
                          (color_res, cc') = get_color nv r g b 1 (adc_color_cache s2);
                          s3 = s2\<lparr>adc_color_cache := cc'\<rparr>
                      in case color_res of
                           Inl e \<Rightarrow> (Inl e, s3)
                         | Inr color \<Rightarrow>
                             (let number = (if underline then cf_number_create nv else None)
                              in if underline \<and> number = None
                                 then (Inl Failed_to_create_underline_style_number, s3)
                                 else (case cf_dictionary_create nv font color number of
                                         None \<Rightarrow> (Inl Failed_to_create_attribute_dictionary, s3)
                                       | Some h \<Rightarrow>
                                           (let d = \<lparr>ad_handle = h, ad_font = font,
                                                     ad_color = color, ad_underline = underline\<rparr>
                                            in (Inr d, s3\<lparr>adc_cache := (adc_cache s3)(key \<mapsto> d)\<rparr>)))))))"

definition adc_clear :: "AttributeDictCache \<Rightarrow> AttributeDictCache" where
  "adc_clear s = s\<lparr>adc_cache := Map.empty\<rparr>"

text \<open>A run of \<^verbatim>\<open>get_attributes\<close> calls, each given by its three arguments.\<close>

type_synonym attr_call = "int \<times> 32 word \<times> bool"

definition adc_apply :: "natives \<Rightarrow> AttributeDictCache \<Rightarrow> attr_call \<Rightarrow> AttributeDictCache" where
  "adc_apply nv s c = (case c of (fa, rgb, ul) \<Rightarrow> snd (get_attributes nv fa rgb ul s))"

definition adc_run :: "natives \<Rightarrow> attr_call list \<Rightarrow> AttributeDictCache \<Rightarrow> AttributeDictCache" where
  "adc_run nv cs s = foldl (adc_apply nv) s cs"

text \<open>Font attributes that fit the 31 bits the key gives them.\<close>

definition fits_31_bits :: "attr_call \<Rightarrow> bool" where
  "fits_31_bits c = (case c of (fa, rgb, ul) \<Rightarrow> 0 \<le> fa \<and> fa < 2147483648)"

text \<open>The invariant of a colour cache: both maps have distinct keys and the same keys, the
  cache is within its capacity, and every access stamp is older than the counter.\<close>

definition cc_inv :: "ColorCache \<Rightarrow> bool" where
  "cc_inv s =
     (distinct (map fst (cc_cache s)) \<and> distinct (map fst (cc_access_order s)) \<and>
      cc_keys s = cc_order_keys s \<and> length (cc_cache s) \<le> cc_max_size s \<and>
      list_all (\<lambda>e. snd e < cc_access_counter s) (cc_access_order s))"

text \<open>The access stamp of a cached key, and the state of a cache of capacity \<open>m\<close> whose
  requested keys are, most recent first and without repetition, the list \<open>recent\<close>: the
  cache holds the first \<open>m\<close> of them, and their stamps decrease along the list.\<close>

definition cc_stamp :: "ColorCache \<Rightarrow> 32 word \<Rightarrow> nat" where
  "cc_stamp s k = (case map_of (cc_access_order s) k of Some a \<Rightarrow> a | None \<Rightarrow> 0)"

definition lru_inv :: "nat \<Rightarrow> 32 word list \<Rightarrow> ColorCache \<Rightarrow> bool" where
  "lru_inv m recent s =
     (cc_inv s \<and> cc_max_size s = m \<and> distinct recent \<and>
      cc_keys s = set (take m recent) \<and>
      sorted_wrt (\<lambda>a b. cc_stamp s b < cc_stamp s a) (take m recent))"

text \<open>Natives under which every creation succeeds, for the concrete runs below.\<close>

definition sample_natives :: natives where
  "sample_natives =
     \<lparr>color_space_create = Some 1,
      cg_color_create = (\<lambda>r g b alpha. Some (100 + unat (pack_rgb r g b))),
      font_create_bold_copy = (\<lambda>font. Some (font + 1)),
      cf_number_create = Some 2,
      cf_dictionary_create = (\<lambda>font color number. Some (1000 + font + color)),
      font_get_glyphs = (\<lambda>font text. True),
      font_cascade_list = (\<lambda>font. None),
      font_create_with_descriptor = (\<lambda>desc. Some desc)\<rparr>"

definition call_key :: "attr_call \<Rightarrow> 64 word" where
  "call_key c = (case c of (fa, rgb, ul) \<Rightarrow> make_key fa rgb ul)"

text \<open>A freshly constructed set of caches, as \<^verbatim>\<open>initialize_caches\<close> builds them around a
  base font.\<close>

definition fresh_caches :: "handle \<Rightarrow> AttributeDictCache" where
  "fresh_caches base_font =
     AttributeDictCache_new (FontCache_new base_font) (ColorCache_new 256)"

section \<open>Grid, colour pairs and the two rendering passes\<close>

record Cell =
  cell_character :: "16 word list"
  cell_color_pair :: int
  cell_attributes :: int
  cell_is_wide :: bool

record ColorPair =
  cp_fg_rgb :: "32 word"
  cp_bg_rgb :: "32 word"

text \<open>The arguments the two passes share. The colour-pair table is only ever searched,
  so it is a map.\<close>

record frame =
  fr_grid :: "Cell list list"
  fr_color_pairs :: "int \<rightharpoonup> ColorPair"
  fr_dirty_cells :: CellRect
  fr_char_width :: CGFloat
  fr_char_height :: CGFloat
  fr_rows :: int
  fr_cols :: int
  fr_offset_x :: CGFloat
  fr_offset_y :: CGFloat

text \<open>A pass fails when it indexes the grid out of range (undefined behaviour of
  \<^verbatim>\<open>operator[]\<close> in the source) or when a cache throws.\<close>

datatype pass_error = Grid_index_out_of_range int int | Cache_error cache_error

definition grid_at :: "Cell list list \<Rightarrow> int \<Rightarrow> int \<Rightarrow> Cell option" where
  "grid_at grid row col =
     (if 0 \<le> row \<and> nat row < length grid
      then (if 0 \<le> col \<and> nat col < length (grid ! nat row)
            then Some (grid ! nat row ! nat col) else None)
      else None)"

definition grid_shape_ok :: "Cell list list \<Rightarrow> int \<Rightarrow> int \<Rightarrow> bool" where
  "grid_shape_ok grid rows cols =
     (int (length grid) = rows \<and> list_all (\<lambda>r. int (length r) = cols) grid)"

definition is_variation_selector :: "16 word list \<Rightarrow> bool" where
  "is_variation_selector character =
     (length character = 1 \<and> 0xFE00 \<le> hd character \<and> hd character \<le> 0xFE0F)"

subsection \<open>Background pass\<close>

text \<open>The body of the inner loop of \<^verbatim>\<open>render_backgrounds\<close>, after the cell is fetched.\<close>

definition background_cell :: "frame \<Rightarrow> int \<Rightarrow> int \<Rightarrow> Cell \<Rightarrow> RectangleBatcher \<Rightarrow> RectangleBatcher" where
  "background_cell f row col cell b =
     (let left_col = 0;
          right_col = fr_cols f - 1;
          has_padding = (fr_offset_x f > eps_001f \<or> fr_offset_y f > eps_001f)
      in if cell_character cell = [] then b
         else if is_variation_selector (cell_character cell) then b
         else case fr_color_pairs f (cell_color_pair cell) of
                None \<Rightarrow> b
              | Some colors \<Rightarrow>
                  (let bg_rgb = (if cell_attributes cell AND 4 \<noteq> 0
                                 then cp_fg_rgb colors else cp_bg_rgb colors);
                       y = ttk_to_cg_y row (fr_rows f) (fr_char_height f) + fr_offset_y f;
                       x = real_of_int col * fr_char_width f + fr_offset_x f;
                       base_cell_width = (if cell_is_wide cell then fr_char_width f * 2
                                          else fr_char_width f);
                       is_edge_row = (row = 0 \<or> row = fr_rows f - 1);
                       is_edge_col = (col = left_col \<or> col = right_col)
                   in if has_padding \<and> (is_edge_row \<or> is_edge_col)
                      then (let cell_x = (if col = left_col then 0 else x);
                                cell_width = (if col = left_col \<or> col = right_col
                                              then base_cell_width + fr_offset_x f
                                              else base_cell_width);
                                cell_height = (if row = 0 \<or> row = fr_rows f - 1
                                               then fr_char_height f + fr_offset_y f
                                               else fr_char_height f);
                                cell_y = (if row = fr_rows f - 1 then 0 else y)
                            in add_cell cell_x cell_y cell_width cell_height bg_rgb b)
                      else add_cell x y base_cell_width (fr_char_height f) bg_rgb b))"

function bg_cols :: "frame \<Rightarrow> int \<Rightarrow> int \<Rightarrow> RectangleBatcher \<Rightarrow> pass_error + RectangleBatcher" where
  "bg_cols f row col b =
     (if col < end_col (fr_dirty_cells f)
      then (case grid_at (fr_grid f) row col of
              None \<Rightarrow> Inl (Grid_index_out_of_range row col)
            | Some cell \<Rightarrow> bg_cols f row (col + 1) (background_cell f row col cell b))
      else Inr b)"
  by pat_completeness auto
termination
  by (relation "measure (\<lambda>(f, row, col, b). nat (end_col (fr_dirty_cells f) - col))") auto

function bg_rows :: "frame \<Rightarrow> int \<Rightarrow> RectangleBatcher \<Rightarrow> pass_error + RectangleBatcher" where
  "bg_rows f row b =
     (if row < end_row (fr_dirty_cells f)
      then (case bg_cols f row (start_col (fr_dirty_cells f)) b of
              Inl e \<Rightarrow> Inl e
            | Inr b' \<Rightarrow> bg_rows f (row + 1) (finish_row b'))
      else Inr b)"
  by pat_completeness auto
termination
  by (relation "measure (\<lambda>(f, row, b). nat (end_row (fr_dirty_cells f) - row))") auto

definition render_backgrounds :: "frame \<Rightarrow> RectangleBatcher \<Rightarrow> pass_error + RectangleBatcher" where
  "render_backgrounds f b = bg_rows f (start_row (fr_dirty_cells f)) b"

subsection \<open>Character pass\<close>

record CharacterBatch =
  cb_text :: "16 word list"
  cb_is_wide :: "bool list"
  cb_font_attributes :: int
  cb_fg_rgb :: "32 word"
  cb_underline :: bool
  cb_x :: CGFloat
  cb_y :: CGFloat
  cb_font_index :: int

text \<open>The state of the pass: the open run, the runs handed to \<^verbatim>\<open>draw_character_batch\<close> so
  far, and the attribute cache. The global performance counters are only written by the
  pass and are left out.\<close>

record char_state =
  rs_current_batch :: "CharacterBatch option"
  rs_drawn :: "CharacterBatch list"
  rs_attr_cache :: AttributeDictCache

text \<open>\<^verbatim>\<open>get_font_index_for_character\<close>: \<open>-1\<close> for the primary font, the index of the first
  cascade font that has glyphs for the whole unit, \<open>-2\<close> when there is none.\<close>

fun cascade_search :: "natives \<Rightarrow> 16 word list \<Rightarrow> int \<Rightarrow> handle list \<Rightarrow> int \<Rightarrow> int" where
  "cascade_search nv character font_attributes [] i = - 2"
| "cascade_search nv character font_attributes (cascade_desc # descs) i =
     (case font_create_with_descriptor nv cascade_desc of
        None \<Rightarrow> cascade_search nv character font_attributes descs (i + 1)
      | Some cascade_font \<Rightarrow>
          (let font = (if font_attributes AND 1 \<noteq> 0
                       then (case font_create_bold_copy nv cascade_font of
                               Some bold_cascade \<Rightarrow> bold_cascade
                             | None \<Rightarrow> cascade_font)
                       else cascade_font)
           in if font_get_glyphs nv font character then i
              else cascade_search nv character font_attributes descs (i + 1)))"

definition get_font_index_for_character :: "natives \<Rightarrow> 16 word list \<Rightarrow> handle \<Rightarrow> int \<Rightarrow> int" where
  "get_font_index_for_character nv character base_font font_attributes =
     (if character = [] then - 2
      else if font_get_glyphs nv base_font character then - 1
      else case font_cascade_list nv base_font of
             None \<Rightarrow> - 2
           | Some cascade_list \<Rightarrow> cascade_search nv character font_attributes cascade_list 0)"

text \<open>\<^verbatim>\<open>draw_character_batch\<close> looks the attribute dictionary of the run up (which may
  throw) and then draws; the model records the run as drawn and leaves the drawing itself
  to the rendering surface.\<close>

definition draw_character_batch :: "natives \<Rightarrow> CharacterBatch \<Rightarrow> char_state \<Rightarrow> pass_error + char_state" where
  "draw_character_batch nv batch s =
     (case get_attributes nv (cb_font_attributes batch) (cb_fg_rgb batch) (cb_underline batch)
             (rs_attr_cache s) of
        (Inl e, cache') \<Rightarrow> Inl (Cache_error e)
      | (Inr d, cache') \<Rightarrow> Inr (s\<lparr>rs_attr_cache := cache', rs_drawn := rs_drawn s @ [batch]\<rparr>))"

text \<open>"Finish current batch if any": draw the open run and close it.\<close>

definition finish_batch :: "natives \<Rightarrow> char_state \<Rightarrow> pass_error + char_state" where
  "finish_batch nv s =
     (case rs_current_batch s of
        None \<Rightarrow> Inr s
      | Some batch \<Rightarrow>
          (case draw_character_batch nv batch s of
             Inl e \<Rightarrow> Inl e
           | Inr s' \<Rightarrow> Inr (s'\<lparr>rs_current_batch := None\<rparr>)))"

text \<open>The x position the next cell must have to extend a run: the run's start plus one
  cell width per code unit of its text, doubled where the wide flag of that index is
  set.\<close>

definition expected_x :: "CGFloat \<Rightarrow> CharacterBatch \<Rightarrow> CGFloat" where
  "expected_x char_width batch =
     cb_x batch +
     sum_list (map (\<lambda>i. if i < length (cb_is_wide batch) \<and> cb_is_wide batch ! i
                         then char_width * 2 else char_width)
                   [0..<length (cb_text batch)])"

text \<open>The cell combined with a variation selector in the next column, if there is one:
  the text of the unit and whether a selector was combined. The next column is read only
  inside the dirty region and inside the grid.\<close>

definition combine_selector :: "frame \<Rightarrow> int \<Rightarrow> int \<Rightarrow> Cell \<Rightarrow> pass_error + (16 word list \<times> bool)" where
  "combine_selector f row col cell =
     (if col + 1 < end_col (fr_dirty_cells f) \<and> col + 1 < fr_cols f
      then (case grid_at (fr_grid f) row (col + 1) of
              None \<Rightarrow> Inl (Grid_index_out_of_range row (col + 1))
            | Some next_cell \<Rightarrow>
                if is_variation_selector (cell_character next_cell)
                then Inr (cell_character cell @ cell_character next_cell, True)
                else Inr (cell_character cell, False))
      else Inr (cell_character cell, False))"

text \<open>The body of the inner loop of \<^verbatim>\<open>render_characters\<close>, after the cell is fetched. It
  returns the new state and the number of columns to skip after this one.\<close>

definition character_cell ::
  "natives \<Rightarrow> frame \<Rightarrow> int \<Rightarrow> int \<Rightarrow> Cell \<Rightarrow> char_state \<Rightarrow> pass_error + (char_state \<times> nat)"
where
  "character_cell nv f row col cell s =
     (if cell_character cell = []
      then map_sum id (\<lambda>s'. (s', 0)) (finish_batch nv s)
      else
        (let is_space = (cell_character cell = [0x20]);
             has_underline = (cell_attributes cell AND 2 \<noteq> 0)
         in if is_space \<and> \<not> has_underline
            then map_sum id (\<lambda>s'. (s', 0)) (finish_batch nv s)
            else
              (case combine_selector f row col cell of
                 Inl e \<Rightarrow> Inl e
               | Inr (combined_char, has_variation_selector) \<Rightarrow>
                   (let cols_to_skip = (if has_variation_selector then 1 else 0)
                    in case fr_color_pairs f (cell_color_pair cell) of
                         None \<Rightarrow> map_sum id (\<lambda>s'. (s', 0)) (finish_batch nv s)
                       | Some colors \<Rightarrow>
                           (let fg_rgb = (if cell_attributes cell AND 4 \<noteq> 0
                                          then cp_bg_rgb colors else cp_fg_rgb colors);
                                font_attributes = cell_attributes cell AND 1;
                                underline = (cell_attributes cell AND 2 \<noteq> 0);
                                y = ttk_to_cg_y row (fr_rows f) (fr_char_height f) + fr_offset_y f;
                                x = real_of_int col * fr_char_width f + fr_offset_x f
                            in case get_attributes nv font_attributes fg_rgb False (rs_attr_cache s) of
                                 (Inl e, cache') \<Rightarrow> Inl (Cache_error e)
                               | (Inr attrs, cache') \<Rightarrow>
                                   (let s1 = s\<lparr>rs_attr_cache := cache'\<rparr>;
                                        font_index =
                                          (if combined_char \<noteq> []
                                           then get_font_index_for_character nv combined_char
                                                  (ad_font attrs) font_attributes
                                           else - 2)
                                    in if font_index = - 2
                                       then map_sum id (\<lambda>s'. (s', cols_to_skip)) (finish_batch nv s1)
                                       else
                                         (let wide = (if has_variation_selector then True
                                                      else cell_is_wide cell);
                                              can_extend =
                                                (case rs_current_batch s1 of
                                                   None \<Rightarrow> False
                                                 | Some batch \<Rightarrow>
                                                     \<bar>cb_y batch - y\<bar> < eps_001f \<and>
                                                     (cb_font_attributes batch = font_attributes \<and>
                                                      cb_fg_rgb batch = fg_rgb \<and>
                                                      cb_underline batch = underline) \<and>
                                                     \<bar>expected_x (fr_char_width f) batch - x\<bar> < eps_001f \<and>
                                                     cb_font_index batch = font_index)
                                          in if can_extend
                                             then Inr (s1\<lparr>rs_current_batch :=
                                                        map_option
                                                          (\<lambda>batch. batch\<lparr>cb_text := cb_text batch @ combined_char,
                                                                          cb_is_wide := cb_is_wide batch @ [wide]\<rparr>)
                                                          (rs_current_batch s1)\<rparr>,
                                                       cols_to_skip)
                                             else
                                               (case finish_batch nv s1 of
                                                  Inl e \<Rightarrow> Inl e
                                                | Inr s2 \<Rightarrow>
                                                    Inr (s2\<lparr>rs_current_batch :=
                                                           Some \<lparr>cb_text = combined_char,
                                                                 cb_is_wide = [wide],
                                                                 cb_font_attributes = font_attributes,
                                                                 cb_fg_rgb = fg_rgb,
                                                                 cb_underline = underline,
                                                                 cb_x = x, cb_y = y,
                                                                 cb_font_index = font_index\<rparr>\<rparr>,
                                                         cols_to_skip)))))))))"

function char_cols ::
  "natives \<Rightarrow> frame \<Rightarrow> int \<Rightarrow> int \<Rightarrow> char_state \<Rightarrow> pass_error + char_state"
where
  "char_cols nv f row col s =
     (if col < end_col (fr_dirty_cells f)
      then (case grid_at (fr_grid f) row col of
              None \<Rightarrow> Inl (Grid_index_out_of_range row col)
            | Some cell \<Rightarrow>
                (case character_cell nv f row col cell s of
                   Inl e \<Rightarrow> Inl e
                 | Inr (s', cols_to_skip) \<Rightarrow> char_cols nv f row (col + int cols_to_skip + 1) s'))
      else Inr s)"
  by pat_completeness auto
termination
  by (relation "measure (\<lambda>(nv, f, row, col, s). nat (end_col (fr_dirty_cells f) - col))") auto

function char_rows :: "natives \<Rightarrow> frame \<Rightarrow> int \<Rightarrow> char_state \<Rightarrow> pass_error + char_state" where
  "char_rows nv f row s =
     (if row < end_row (fr_dirty_cells f)
      then (case char_cols nv f row (start_col (fr_dirty_cells f)) s of
              Inl e \<Rightarrow> Inl e
            | Inr s' \<Rightarrow>
                (case finish_batch nv s' of
                   Inl e \<Rightarrow> Inl e
                 | Inr s'' \<Rightarrow> char_rows nv f (row + 1) s''))
      else Inr s)"
  by pat_completeness auto
termination
  by (relation "measure (\<lambda>(nv, f, row, s). nat (end_row (fr_dirty_cells f) - row))") auto

definition render_characters :: "natives \<Rightarrow> frame \<Rightarrow> AttributeDictCache \<Rightarrow> pass_error + char_state" where
  "render_characters nv f cache =
     (case char_rows nv f (start_row (fr_dirty_cells f))
             \<lparr>rs_current_batch = None, rs_drawn = [], rs_attr_cache = cache\<rparr> of
        Inl e \<Rightarrow> Inl e
      | Inr s \<Rightarrow> finish_batch nv s)"

text \<open>A frame whose grid has the announced shape and whose dirty cells lie inside it.\<close>

definition frame_in_bounds :: "frame \<Rightarrow> bool" where
  "frame_in_bounds f =
     (grid_shape_ok (fr_grid f) (fr_rows f) (fr_cols f) \<and>
      0 \<le> start_row (fr_dirty_cells f) \<and> end_row (fr_dirty_cells f) \<le> fr_rows f \<and>
      0 \<le> start_col (fr_dirty_cells f) \<and> end_col (fr_dirty_cells f) \<le> fr_cols f)"

definition is_cache_error :: "pass_error \<Rightarrow> bool" where
  "is_cache_error e = (case e of Cache_error ce \<Rightarrow> True | Grid_index_out_of_range row col \<Rightarrow> False)"

text \<open>Sample cells, a colour-pair table with the single pair 0, and the frame that
  redraws a row of three cells whole, for the concrete runs below.\<close>

definition sample_cell :: "16 word \<Rightarrow> int \<Rightarrow> int \<Rightarrow> Cell" where
  "sample_cell ch pair attrs =
     \<lparr>cell_character = [ch], cell_color_pair = pair, cell_attributes = attrs,
      cell_is_wide = False\<rparr>"

definition sample_pairs :: "int \<rightharpoonup> ColorPair" where
  "sample_pairs = [0 \<mapsto> \<lparr>cp_fg_rgb = 16777215, cp_bg_rgb = 0\<rparr>]"

definition sample_frame :: "Cell list \<Rightarrow> frame" where
  "sample_frame row =
     \<lparr>fr_grid = [row], fr_color_pairs = sample_pairs,
      fr_dirty_cells =
        calculate_dirty_cells (\<lambda>q. 0)
          \<lparr>origin_x = 0, origin_y = 0, size_width = 24, size_height = 16\<rparr>
          8 16 1 3 0 0,
      fr_char_width = 8, fr_char_height = 16, fr_rows = 1, fr_cols = 3,
      fr_offset_x = 0, fr_offset_y = 0\<rparr>"

definition sample_row :: "Cell list" where
  "sample_row = [sample_cell 0x41 0 2, sample_cell 0x20 0 2, sample_cell 0x42 0 2]"

text \<open>A row whose middle cell names the colour pair 5, which the table does not have; and
  the same row with a wide first cell.\<close>

definition unknown_pair_row :: "Cell list" where
  "unknown_pair_row = [sample_cell 0x41 0 0, sample_cell 0x78 5 0, sample_cell 0x42 0 0]"

definition wide_unknown_pair_row :: "Cell list" where
  "wide_unknown_pair_row =
     [(sample_cell 0x41 0 0)\<lparr>cell_is_wide := True\<rparr>, sample_cell 0x78 5 0, sample_cell 0x42 0 0]"

definition initial_char_state :: "AttributeDictCache \<Rightarrow> char_state" where
  "initial_char_state cache = \<lparr>rs_current_batch = None, rs_drawn = [], rs_attr_cache = cache\<rparr>"

text \<open>The state of the character pass with the run \<open>A\<close> (underlined, primary font) open at
  the start of the row.\<close>

definition open_run_A :: CharacterBatch where
  "open_run_A =
     \<lparr>cb_text = [0x41], cb_is_wide = [False], cb_font_attributes = 0, cb_fg_rgb = 16777215,
      cb_underline = True, cb_x = 0, cb_y = 0, cb_font_index = - 1\<rparr>"

definition state_after_A :: char_state where
  "state_after_A =
     \<lparr>rs_current_batch = Some open_run_A, rs_drawn = [], rs_attr_cache = fresh_caches 7\<rparr>"

text \<open>An underlined space in the unknown colour pair 5, between \<open>A\<close> and \<open>B\<close>.\<close>

definition unknown_pair_space_row :: "Cell list" where
  "unknown_pair_space_row = [sample_cell 0x41 0 2, sample_cell 0x20 5 2, sample_cell 0x42 0 2]"

text \<open>The row \<open>A\<close>, plain space, \<open>B\<close> in colour pair 0, without attributes.\<close>

definition plain_row :: "Cell list" where
  "plain_row = [sample_cell 0x41 0 0, sample_cell 0x20 0 0, sample_cell 0x42 0 0]"

section \<open>Parsing the caller's data and \<^verbatim>\<open>render_frame\<close>\<close>

subsection \<open>Python objects\<close>

text \<open>The Python values \<^verbatim>\<open>render_frame\<close> can be handed. A string is its list of code
  points; a dictionary is its list of items in iteration order. \<^verbatim>\<open>bool\<close> is a subclass of
  \<^verbatim>\<open>int\<close>, so \<^verbatim>\<open>PyLong_Check\<close> accepts it.\<close>

datatype pyobj =
    Py_None
  | Py_Bool bool
  | Py_Long int
  | Py_Float real
  | Py_Unicode "nat list"
  | Py_List "pyobj list"
  | Py_Tuple "pyobj list"
  | Py_Dict "(pyobj \<times> pyobj) list"

fun PyLong_Check :: "pyobj \<Rightarrow> bool" where
  "PyLong_Check (Py_Long n) = True"
| "PyLong_Check (Py_Bool b) = True"
| "PyLong_Check obj = False"

fun PyFloat_Check :: "pyobj \<Rightarrow> bool" where
  "PyFloat_Check (Py_Float v) = True"
| "PyFloat_Check obj = False"

text \<open>\<^verbatim>\<open>PyLong_AsLong\<close> of an object that passed \<^verbatim>\<open>PyLong_Check\<close>: \<^term>\<open>None\<close> stands for the
  result \<open>-1\<close> with an \<^verbatim>\<open>OverflowError\<close> set, when the value does not fit a 64-bit \<^verbatim>\<open>long\<close>.\<close>

fun PyLong_AsLong :: "pyobj \<Rightarrow> int option" where
  "PyLong_AsLong (Py_Long n) =
     (if - 9223372036854775808 \<le> n \<and> n \<le> 9223372036854775807 then Some n else None)"
| "PyLong_AsLong (Py_Bool b) = Some (if b then 1 else 0)"
| "PyLong_AsLong obj = None"

text \<open>\<^verbatim>\<open>PyFloat_AsDouble\<close> of an object that passed the number check.\<close>

fun PyFloat_AsDouble :: "pyobj \<Rightarrow> real" where
  "PyFloat_AsDouble (Py_Float v) = v"
| "PyFloat_AsDouble (Py_Long n) = real_of_int n"
| "PyFloat_AsDouble (Py_Bool b) = (if b then 1 else 0)"
| "PyFloat_AsDouble obj = - 1"

fun PyObject_IsTrue :: "pyobj \<Rightarrow> bool" where
  "PyObject_IsTrue Py_None = False"
| "PyObject_IsTrue (Py_Bool b) = b"
| "PyObject_IsTrue (Py_Long n) = (n \<noteq> 0)"
| "PyObject_IsTrue (Py_Float v) = (v \<noteq> 0)"
| "PyObject_IsTrue (Py_Unicode s) = (s \<noteq> [])"
| "PyObject_IsTrue (Py_List xs) = (xs \<noteq> [])"
| "PyObject_IsTrue (Py_Tuple xs) = (xs \<noteq> [])"
| "PyObject_IsTrue (Py_Dict kvs) = (kvs \<noteq> [])"

subsection \<open>Strings to UTF-16\<close>

definition is_surrogate :: "nat \<Rightarrow> bool" where
  "is_surrogate cp = (0xD800 \<le> cp \<and> cp \<le> 0xDFFF)"

definition utf16_units :: "nat \<Rightarrow> 16 word list" where
  "utf16_units cp =
     (if cp < 0x10000 then [of_nat cp]
      else [of_nat (0xD800 + (cp - 0x10000) div 1024), of_nat (0xDC00 + (cp - 0x10000) mod 1024)])"

text \<open>A string kept by Python in two bytes per code point is copied as it is. Any other
  non-empty string goes through \<^verbatim>\<open>PyUnicode_AsUTF8\<close>, which fails on a surrogate code point,
  and through a conversion of the resulting C string, which ends at the first NUL.\<close>

definition cell_text_utf16 :: "nat list \<Rightarrow> 16 word list option" where
  "cell_text_utf16 s =
     (if s = [] then Some []
      else if (\<forall>cp \<in> set s. cp < 0x10000) \<and> (\<exists>cp \<in> set s. 0x100 \<le> cp)
      then Some (map of_nat s)
      else if \<exists>cp \<in> set s. is_surrogate cp then None
      else Some (concat (map utf16_units (takeWhile (\<lambda>cp. cp \<noteq> 0) s))))"

subsection \<open>Errors\<close>

text \<open>The \<^verbatim>\<open>std::runtime_error\<close>s of the parsers, by their message and the numbers in it.\<close>

datatype runtime_error =
    Grid_must_be_a_list
  | Grid_row_count_mismatch int int
  | Grid_row_must_be_a_list int
  | Grid_row_column_count_mismatch int int int
  | Grid_cell_must_be_a_tuple int int
  | Grid_cell_must_have_4_elements int int
  | Grid_cell_character_must_be_a_string int int
  | Failed_to_convert_character int int
  | Grid_cell_color_pair_must_be_an_integer int int
  | Failed_to_convert_color_pair int int
  | Grid_cell_attributes_must_be_an_integer int int
  | Failed_to_convert_attributes int int
  | Color_pairs_must_be_a_dictionary
  | Color_pair_ID_must_be_an_integer
  | Failed_to_convert_color_pair_ID
  | Color_pair_must_be_a_tuple_of_2_RGB_tuples int
  | Color_pair_foreground_must_be_an_RGB_tuple int
  | Color_pair_background_must_be_an_RGB_tuple int
  | RGB_component_must_be_an_integer int bool
  | Failed_to_convert_RGB_component int bool
  | RGB_component_out_of_range int bool int
  | Cache_initialization_failed
  | Rendering_failed pass_error

text \<open>The Python exceptions \<^verbatim>\<open>render_frame\<close> sets.\<close>

datatype py_error =
    ValueError_CGContext_cannot_be_null
  | ValueError_grid_dimensions_must_be_positive
  | ValueError_grid_dimensions_too_large
  | ValueError_character_dimensions_must_be_positive
  | TypeError_grid_must_be_a_list
  | TypeError_color_pairs_must_be_a_dictionary
  | TypeError_dirty_rect_must_be_a_tuple_of_4_numbers
  | TypeError_dirty_rect_x_must_be_a_number
  | TypeError_dirty_rect_y_must_be_a_number
  | TypeError_dirty_rect_width_must_be_a_number
  | TypeError_dirty_rect_height_must_be_a_number
  | RuntimeError runtime_error

subsection \<open>\<^verbatim>\<open>parse_grid\<close>\<close>

definition parse_cell :: "int \<Rightarrow> int \<Rightarrow> pyobj \<Rightarrow> runtime_error + Cell" where
  "parse_cell row col cell_obj =
     (case cell_obj of
        Py_Tuple items \<Rightarrow>
          if length items \<noteq> 4 then Inl (Grid_cell_must_have_4_elements row col)
          else
            (case items ! 0 of
               Py_Unicode s \<Rightarrow>
                 (case cell_text_utf16 s of
                    None \<Rightarrow> Inl (Failed_to_convert_character row col)
                  | Some character \<Rightarrow>
                      if \<not> PyLong_Check (items ! 1)
                      then Inl (Grid_cell_color_pair_must_be_an_integer row col)
                      else
                        (case PyLong_AsLong (items ! 1) of
                           None \<Rightarrow> Inl (Failed_to_convert_color_pair row col)
                         | Some color_pair \<Rightarrow>
                             if \<not> PyLong_Check (items ! 2)
                             then Inl (Grid_cell_attributes_must_be_an_integer row col)
                             else
                               (case PyLong_AsLong (items ! 2) of
                                  None \<Rightarrow> Inl (Failed_to_convert_attributes row col)
                                | Some attributes \<Rightarrow>
                                    Inr \<lparr>cell_character = character,
                                         cell_color_pair = wrap_int color_pair,
                                         cell_attributes = wrap_int attributes,
                                         cell_is_wide = PyObject_IsTrue (items ! 3)\<rparr>)))
             | other \<Rightarrow> Inl (Grid_cell_character_must_be_a_string row col))
      | other \<Rightarrow> Inl (Grid_cell_must_be_a_tuple row col))"

fun parse_cells :: "int \<Rightarrow> int \<Rightarrow> pyobj list \<Rightarrow> runtime_error + Cell list" where
  "parse_cells row col [] = Inr []"
| "parse_cells row col (cell_obj # objs) =
     (case parse_cell row col cell_obj of
        Inl e \<Rightarrow> Inl e
      | Inr cell \<Rightarrow>
          (case parse_cells row (col + 1) objs of
             Inl e \<Rightarrow> Inl e
           | Inr cells \<Rightarrow> Inr (cell # cells)))"

definition parse_row :: "int \<Rightarrow> int \<Rightarrow> pyobj \<Rightarrow> runtime_error + Cell list" where
  "parse_row expected_cols row row_obj =
     (case row_obj of
        Py_List cell_objs \<Rightarrow>
          if int (length cell_objs) \<noteq> expected_cols
          then Inl (Grid_row_column_count_mismatch row expected_cols (int (length cell_objs)))
          else parse_cells row 0 cell_objs
      | other \<Rightarrow> Inl (Grid_row_must_be_a_list row))"

fun parse_rows :: "int \<Rightarrow> int \<Rightarrow> pyobj list \<Rightarrow> runtime_error + Cell list list" where
  "parse_rows expected_cols row [] = Inr []"
| "parse_rows expected_cols row (row_obj # objs) =
     (case parse_row expected_cols row row_obj of
        Inl e \<Rightarrow> Inl e
      | Inr cells \<Rightarrow>
          (case parse_rows expected_cols (row + 1) objs of
             Inl e \<Rightarrow> Inl e
           | Inr rows \<Rightarrow> Inr (cells # rows)))"

definition parse_grid :: "pyobj \<Rightarrow> int \<Rightarrow> int \<Rightarrow> runtime_error + Cell list list" where
  "parse_grid grid_obj expected_rows expected_cols =
     (case grid_obj of
        Py_List row_objs \<Rightarrow>
          if int (length row_objs) \<noteq> expected_rows
          then Inl (Grid_row_count_mismatch expected_rows (int (length row_objs)))
          else parse_rows expected_cols 0 row_objs
      | other \<Rightarrow> Inl Grid_must_be_a_list)"

subsection \<open>\<^verbatim>\<open>parse_color_pairs\<close>\<close>

text \<open>\<^verbatim>\<open>extract_rgb\<close>: the three components in order, each an integer in \<open>0..255\<close>; the flag
  says whether the tuple is the foreground.\<close>

fun extract_components :: "int \<Rightarrow> bool \<Rightarrow> pyobj list \<Rightarrow> runtime_error + 8 word list" where
  "extract_components pair_id is_fg [] = Inr []"
| "extract_components pair_id is_fg (component # rest) =
     (if \<not> PyLong_Check component then Inl (RGB_component_must_be_an_integer pair_id is_fg)
      else
        (case PyLong_AsLong component of
           None \<Rightarrow> Inl (Failed_to_convert_RGB_component pair_id is_fg)
         | Some v \<Rightarrow>
             if v < 0 \<or> v > 255 then Inl (RGB_component_out_of_range pair_id is_fg v)
             else
               (case extract_components pair_id is_fg rest of
                  Inl e \<Rightarrow> Inl e
                | Inr vs \<Rightarrow> Inr (word_of_int v # vs))))"

definition extract_rgb :: "int \<Rightarrow> bool \<Rightarrow> pyobj list \<Rightarrow> runtime_error + 32 word" where
  "extract_rgb pair_id is_fg rgb_tuple =
     (case extract_components pair_id is_fg rgb_tuple of
        Inl e \<Rightarrow> Inl e
      | Inr rgb \<Rightarrow> Inr (pack_rgb (rgb ! 0) (rgb ! 1) (rgb ! 2)))"

definition parse_color_pair :: "pyobj \<Rightarrow> pyobj \<Rightarrow> runtime_error + (int \<times> ColorPair)" where
  "parse_color_pair key val =
     (if \<not> PyLong_Check key then Inl Color_pair_ID_must_be_an_integer
      else
        (case PyLong_AsLong key of
           None \<Rightarrow> Inl Failed_to_convert_color_pair_ID
         | Some pair_id \<Rightarrow>
             (case val of
                Py_Tuple [fg_obj, bg_obj] \<Rightarrow>
                  (case fg_obj of
                     Py_Tuple [fr, fgr, fb] \<Rightarrow>
                       (case bg_obj of
                          Py_Tuple [br, bgr, bb] \<Rightarrow>
                            (case extract_rgb pair_id True [fr, fgr, fb] of
                               Inl e \<Rightarrow> Inl e
                             | Inr fg_rgb \<Rightarrow>
                                 (case extract_rgb pair_id False [br, bgr, bb] of
                                    Inl e \<Rightarrow> Inl e
                                  | Inr bg_rgb \<Rightarrow>
                                      Inr (wrap_int pair_id,
                                           \<lparr>cp_fg_rgb = fg_rgb, cp_bg_rgb = bg_rgb\<rparr>)))
                        | other \<Rightarrow> Inl (Color_pair_background_must_be_an_RGB_tuple pair_id))
                   | other \<Rightarrow> Inl (Color_pair_foreground_must_be_an_RGB_tuple pair_id))
              | other \<Rightarrow> Inl (Color_pair_must_be_a_tuple_of_2_RGB_tuples pair_id))))"

fun parse_items :: "(pyobj \<times> pyobj) list \<Rightarrow> (int \<rightharpoonup> ColorPair) \<Rightarrow> runtime_error + (int \<rightharpoonup> ColorPair)" where
  "parse_items [] color_pairs = Inr color_pairs"
| "parse_items ((key, val) # items) color_pairs =
     (case parse_color_pair key val of
        Inl e \<Rightarrow> Inl e
      | Inr (pair_id, color_pair) \<Rightarrow> parse_items items (color_pairs(pair_id \<mapsto> color_pair)))"

definition parse_color_pairs :: "pyobj \<Rightarrow> runtime_error + (int \<rightharpoonup> ColorPair)" where
  "parse_color_pairs pairs_obj =
     (case pairs_obj of
        Py_Dict items \<Rightarrow> parse_items items Map.empty
      | other \<Rightarrow> Inl Color_pairs_must_be_a_dictionary)"

subsection \<open>\<^verbatim>\<open>render_frame\<close>\<close>

text \<open>The arguments of \<^verbatim>\<open>render_frame\<close> that the validation and the two passes use, as
  \<^verbatim>\<open>PyArg_ParseTupleAndKeywords\<close> delivers them.\<close>

record render_args =
  ra_context_ptr :: "64 word"
  ra_grid :: pyobj
  ra_color_pairs :: pyobj
  ra_dirty_rect :: pyobj
  ra_char_width :: real
  ra_char_height :: real
  ra_rows :: int
  ra_cols :: int
  ra_offset_x :: real
  ra_offset_y :: real

definition is_number :: "pyobj \<Rightarrow> bool" where
  "is_number obj = (PyFloat_Check obj \<or> PyLong_Check obj)"

text \<open>The parameter validation of \<^verbatim>\<open>render_frame\<close>, in the order of the source, up to the
  dirty rectangle it builds.\<close>

definition validate_frame :: "render_args \<Rightarrow> py_error + CGRect" where
  "validate_frame a =
     (if ra_context_ptr a = 0 then Inl ValueError_CGContext_cannot_be_null
      else if ra_rows a \<le> 0 \<or> ra_cols a \<le> 0 then Inl ValueError_grid_dimensions_must_be_positive
      else if ra_rows a > 10000 \<or> ra_cols a > 10000 then Inl ValueError_grid_dimensions_too_large
      else if ra_char_width a \<le> 0 \<or> ra_char_height a \<le> 0
      then Inl ValueError_character_dimensions_must_be_positive
      else
        (case ra_grid a of
           Py_List row_objs \<Rightarrow>
             (case ra_color_pairs a of
                Py_Dict items \<Rightarrow>
                  (case ra_dirty_rect a of
                     Py_Tuple [rect_x, rect_y, rect_width, rect_height] \<Rightarrow>
                       if \<not> is_number rect_x then Inl TypeError_dirty_rect_x_must_be_a_number
                       else if \<not> is_number rect_y then Inl TypeError_dirty_rect_y_must_be_a_number
                       else if \<not> is_number rect_width
                       then Inl TypeError_dirty_rect_width_must_be_a_number
                       else if \<not> is_number rect_height
                       then Inl TypeError_dirty_rect_height_must_be_a_number
                       else Inr \<lparr>origin_x = PyFloat_AsDouble rect_x,
                                 origin_y = PyFloat_AsDouble rect_y,
                                 size_width = PyFloat_AsDouble rect_width,
                                 size_height = PyFloat_AsDouble rect_height\<rparr>
                   | other \<Rightarrow> Inl TypeError_dirty_rect_must_be_a_tuple_of_4_numbers)
              | other \<Rightarrow> Inl TypeError_color_pairs_must_be_a_dictionary)
         | other \<Rightarrow> Inl TypeError_grid_must_be_a_list))"

text \<open>What a call of \<^verbatim>\<open>render_frame\<close> comes to: rejected before anything is drawn; failed
  after the background rectangles were filled; or rendered, with the rectangles filled and
  the character runs drawn. The cursor and the composition overlay, drawn last, are not
  part of the model.\<close>

datatype frame_outcome =
    Rejected py_error
  | Failed_after_backgrounds py_error "RectBatch list"
  | Rendered "RectBatch list" "CharacterBatch list"

text \<open>\<^verbatim>\<open>initialize_caches\<close> builds fonts through the native layer; its result, the caches or
  a \<^verbatim>\<open>runtime_error\<close>, is a parameter.\<close>

definition render_frame ::
  "natives \<Rightarrow> (CGFloat option \<Rightarrow> int) \<Rightarrow> AttributeDictCache option \<Rightarrow> render_args \<Rightarrow> frame_outcome"
where
  "render_frame nv ub caches a =
     (case validate_frame a of
        Inl e \<Rightarrow> Rejected e
      | Inr dirty_rect \<Rightarrow>
          (case caches of
             None \<Rightarrow> Rejected (RuntimeError Cache_initialization_failed)
           | Some attr_dict_cache \<Rightarrow>
               (case parse_grid (ra_grid a) (ra_rows a) (ra_cols a) of
                  Inl e \<Rightarrow> Rejected (RuntimeError e)
                | Inr grid \<Rightarrow>
                    (case parse_color_pairs (ra_color_pairs a) of
                       Inl e \<Rightarrow> Rejected (RuntimeError e)
                     | Inr color_pairs \<Rightarrow>
                         (let f = \<lparr>fr_grid = grid, fr_color_pairs = color_pairs,
                                   fr_dirty_cells =
                                     calculate_dirty_cells ub dirty_rect (ra_char_width a)
                                       (ra_char_height a) (ra_rows a) (ra_cols a)
                                       (ra_offset_x a) (ra_offset_y a),
                                   fr_char_width = ra_char_width a,
                                   fr_char_height = ra_char_height a,
                                   fr_rows = ra_rows a, fr_cols = ra_cols a,
                                   fr_offset_x = ra_offset_x a, fr_offset_y = ra_offset_y a\<rparr>
                          in case render_backgrounds f RectangleBatcher_new of
                               Inl e \<Rightarrow> Rejected (RuntimeError (Rendering_failed e))
                             | Inr batcher \<Rightarrow>
                                 (case render_characters nv f attr_dict_cache of
                                    Inl e \<Rightarrow>
                                      Failed_after_backgrounds (RuntimeError (Rendering_failed e))
                                        (fst (get_batches batcher))
                                  | Inr s \<Rightarrow> Rendered (fst (get_batches batcher)) (rs_drawn s)))))))"

subsection \<open>Well-formed input\<close>
















text \<open>Sample arguments: the row \<open>A\<close>, space, \<open>B\<close> (all underlined, pair 0) redrawn whole.\<close>

definition py_cell :: "nat \<Rightarrow> int \<Rightarrow> int \<Rightarrow> pyobj" where
  "py_cell cp pair attrs = Py_Tuple [Py_Unicode [cp], Py_Long pair, Py_Long attrs, Py_Bool False]"

definition py_pairs :: "int \<Rightarrow> pyobj" where
  "py_pairs red =
     Py_Dict [(Py_Long 0, Py_Tuple [Py_Tuple [Py_Long red, Py_Long 255, Py_Long 255],
                                    Py_Tuple [Py_Long 0, Py_Long 0, Py_Long 0]])]"

definition sample_args :: "64 word \<Rightarrow> int \<Rightarrow> render_args" where
  "sample_args context red =
     \<lparr>ra_context_ptr = context,
      ra_grid = Py_List [Py_List [py_cell 65 0 2, py_cell 32 0 2, py_cell 66 0 2]],
      ra_color_pairs = py_pairs red,
      ra_dirty_rect = Py_Tuple [Py_Float 0, Py_Float 0, Py_Long 24, Py_Long 16],
      ra_char_width = 8, ra_char_height = 16, ra_rows = 1, ra_cols = 3,
      ra_offset_x = 0, ra_offset_y = 0\<rparr>"

section \<open>Properties of the rectangle batcher\<close>




section \<open>Properties of the rounding to double precision\<close>


lemma round_half_even_of_int: "round_half_even (real_of_int n) = n"
  by (simp add: round_half_even_def)



lemma two_powi_pos: "0 < (2::real) powi e"
  by simp

lemma two_powi_mono: "a \<le> b \<Longrightarrow> (2::real) powi a \<le> 2 powi b"
  by (rule power_int_increasing) simp_all

lemma two_powi_add: "(2::real) powi (a + b) = 2 powi a * 2 powi b"
  by (rule power_int_add) simp

lemma two_powi_diff: "(2::real) powi (a - b) = 2 powi a / 2 powi b"
  by (rule power_int_diff) simp

lemma two_powi_nat: "0 \<le> k \<Longrightarrow> (2::real) powi k = 2 ^ nat k"
  by (rule power_int_nonneg_exp)

lemma subnormal_scale_powi: "subnormal_scale = 2 powi 1074"
  unfolding subnormal_scale_def by (simp only: power_int_numeral)

lemma scaled_floor_bounds:
  fixes x :: real
  assumes "0 < \<lfloor>\<bar>x\<bar> * subnormal_scale\<rfloor>"
  shows "2 powi (bitlen \<lfloor>\<bar>x\<bar> * subnormal_scale\<rfloor> - 1075) \<le> \<bar>x\<bar>"
    and "\<bar>x\<bar> < 2 powi (bitlen \<lfloor>\<bar>x\<bar> * subnormal_scale\<rfloor> - 1074)"
proof -
  let ?n = "\<lfloor>\<bar>x\<bar> * subnormal_scale\<rfloor>" and ?k = "bitlen \<lfloor>\<bar>x\<bar> * subnormal_scale\<rfloor>"
  have S: "0 < (2::real) powi 1074" by (rule two_powi_pos)
  from bitlen_bounds [OF assms] have lo: "2 ^ nat (?k - 1) \<le> ?n" and hi: "?n < 2 ^ nat ?k"
    by simp_all
  have k1: "1 \<le> ?k" using assms by (simp add: bitlen_alt_def)
  have "real_of_int (2 ^ nat (?k - 1)) \<le> real_of_int ?n" using lo by (simp only: of_int_le_iff)
  also have "\<dots> \<le> \<bar>x\<bar> * subnormal_scale" by (rule of_int_floor_le)
  finally have "(2::real) ^ nat (?k - 1) \<le> \<bar>x\<bar> * subnormal_scale" by simp
  then have "(2::real) powi (?k - 1) \<le> \<bar>x\<bar> * 2 powi 1074"
    using k1 by (simp only: two_powi_nat subnormal_scale_powi)
  then have "(2::real) powi (?k - 1) / 2 powi 1074 \<le> \<bar>x\<bar>"
    using S by (simp only: pos_divide_le_eq)
  moreover have "?k - 1075 = ?k - 1 - 1074" by simp
  then have "(2::real) powi (?k - 1075) = 2 powi (?k - 1) / 2 powi 1074"
    by (simp only: two_powi_diff)
  ultimately show "2 powi (?k - 1075) \<le> \<bar>x\<bar>" by (simp only:)
  have "?n + 1 \<le> 2 ^ nat ?k" using hi by simp
  then have "real_of_int (?n + 1) \<le> real_of_int (2 ^ nat ?k)" by (simp only: of_int_le_iff)
  then have "real_of_int ?n + 1 \<le> (2::real) ^ nat ?k" by simp
  moreover have "\<bar>x\<bar> * subnormal_scale < real_of_int ?n + 1" by linarith
  ultimately have "\<bar>x\<bar> * subnormal_scale < (2::real) ^ nat ?k" by linarith
  then have "\<bar>x\<bar> * 2 powi 1074 < (2::real) powi ?k"
    using k1 by (simp only: two_powi_nat subnormal_scale_powi)
  then have "\<bar>x\<bar> < (2::real) powi ?k / 2 powi 1074"
    using S by (simp only: pos_less_divide_eq)
  moreover have "(2::real) powi (?k - 1074) = 2 powi ?k / 2 powi 1074"
    by (rule two_powi_diff)
  ultimately show "\<bar>x\<bar> < 2 powi (?k - 1074)" by (simp only:)
qed


lemma ulp_exponent_lower:
  assumes "ulp_exponent x \<noteq> - 1074"
  shows "2 powi (ulp_exponent x + 52) \<le> \<bar>x\<bar>"
proof -
  from assms have e: "ulp_exponent x = bitlen \<lfloor>\<bar>x\<bar> * subnormal_scale\<rfloor> - 1127"
    by (simp add: ulp_exponent_def max_def split: if_splits)
  have "bitlen \<lfloor>\<bar>x\<bar> * subnormal_scale\<rfloor> \<noteq> 0"
  proof
    assume "bitlen \<lfloor>\<bar>x\<bar> * subnormal_scale\<rfloor> = 0"
    then have "ulp_exponent x = - 1074" by (simp add: ulp_exponent_def)
    with assms show False by simp
  qed
  then have "0 < \<lfloor>\<bar>x\<bar> * subnormal_scale\<rfloor>" by (simp add: bitlen_eq_zero_iff)
  then have "2 powi (bitlen \<lfloor>\<bar>x\<bar> * subnormal_scale\<rfloor> - 1075) \<le> \<bar>x\<bar>" by (rule scaled_floor_bounds)
  then show ?thesis by (simp add: e)
qed

lemma round_to_double_multiple:
  assumes "x = real_of_int k * 2 powi ulp_exponent x"
  shows "round_to_double x = x"
proof -
  have "x / 2 powi ulp_exponent x = real_of_int k"
    using assms by (metis nonzero_eq_divide_eq power_int_not_zero zero_neq_numeral)
  then show ?thesis
    using assms by (simp add: round_to_double_def round_half_even_of_int)
qed

lemma dyadic_multiple:
  assumes "e' \<le> e"
  shows "real_of_int m * 2 powi e = real_of_int (m * 2 ^ nat (e - e')) * 2 powi e'"
proof -
  have "(2::real) powi e = 2 powi (e - e') * 2 powi e'"
    using two_powi_add [of "e - e'" e'] by simp
  also have "(2::real) powi (e - e') = 2 ^ nat (e - e')"
    using assms by (simp add: two_powi_nat)
  finally show ?thesis by simp
qed

lemma dyadic_abs_less:
  assumes "\<bar>m\<bar> < 2 ^ 53"
  shows "\<bar>real_of_int m * 2 powi e\<bar> < 2 powi (e + 53)"
proof -
  have "real_of_int \<bar>m\<bar> < real_of_int (2 ^ 53)" using assms by (simp only: of_int_less_iff)
  then have "\<bar>real_of_int m\<bar> < 2 ^ 53" by simp
  then have "\<bar>real_of_int m\<bar> * 2 powi e < 2 ^ 53 * 2 powi e"
    by (simp add: mult_strict_right_mono)
  moreover have "(2::real) powi (e + 53) = 2 powi e * 2 powi 53" by (rule two_powi_add)
  ultimately show ?thesis by (simp add: abs_mult mult.commute)
qed

lemma ulp_exponent_dyadic:
  assumes "\<bar>m\<bar> < 2 ^ 53" and "- 1074 \<le> e"
  shows "ulp_exponent (real_of_int m * 2 powi e) \<le> e"
proof (rule ccontr)
  let ?x = "real_of_int m * 2 powi e"
  assume "\<not> ulp_exponent ?x \<le> e"
  then have gt: "e < ulp_exponent ?x" by simp
  with assms(2) have "ulp_exponent ?x \<noteq> - 1074" by simp
  then have "2 powi (ulp_exponent ?x + 52) \<le> \<bar>?x\<bar>" by (rule ulp_exponent_lower)
  also have "\<bar>?x\<bar> < 2 powi (e + 53)" using assms(1) by (rule dyadic_abs_less)
  finally have "(2::real) powi (ulp_exponent ?x + 52) < 2 powi (e + 53)" .
  moreover have "(2::real) powi (e + 53) \<le> 2 powi (ulp_exponent ?x + 52)"
    by (rule two_powi_mono) (use gt in simp)
  ultimately show False by simp
qed

lemma round_to_double_dyadic:
  assumes "\<bar>m\<bar> < 2 ^ 53" and "- 1074 \<le> e"
  shows "round_to_double (real_of_int m * 2 powi e) = real_of_int m * 2 powi e"
proof -
  let ?x = "real_of_int m * 2 powi e"
  have "ulp_exponent ?x \<le> e" using assms by (rule ulp_exponent_dyadic)
  then have "?x = real_of_int (m * 2 ^ nat (e - ulp_exponent ?x)) * 2 powi ulp_exponent ?x"
    by (rule dyadic_multiple)
  then show ?thesis by (rule round_to_double_multiple)
qed










lemma round_to_double_zero: "round_to_double 0 = 0"
  using round_to_double_dyadic [of 0 0] by simp

lemma round_to_double_of_int:
  "\<bar>n\<bar> < 2 ^ 53 \<Longrightarrow> round_to_double (real_of_int n) = real_of_int n"
  using round_to_double_dyadic [of n 0] by simp

lemma round_to_double_half_int:
  "\<bar>n\<bar> < 2 ^ 53 \<Longrightarrow> round_to_double (real_of_int n / 2) = real_of_int n / 2"
  using round_to_double_dyadic [of n "- 1"] by (simp add: power_int_minus_divide)

lemma overflow_threshold_powi: "overflow_threshold = 2 powi 1024"
  unfolding overflow_threshold_def by (simp only: power_int_numeral)

lemma cg_round_Some:
  "cg_round x = Some y \<longleftrightarrow> y = round_to_double x \<and> \<bar>round_to_double x\<bar> < overflow_threshold"
  by (auto simp add: cg_round_def Let_def)

lemma is_double_iff:
  "is_double x \<longleftrightarrow> round_to_double x = x \<and> \<bar>x\<bar> < overflow_threshold"
  by (auto simp add: is_double_def cg_round_Some)


lemma cg_round_double: "is_double x \<Longrightarrow> cg_round x = Some x"
  by (simp add: is_double_def)


lemma is_double_dyadic:
  assumes m: "\<bar>m\<bar> < 2 ^ 53" and e: "- 1074 \<le> e" "e \<le> 971"
  shows "is_double (real_of_int m * 2 powi e)"
proof -
  have "\<bar>real_of_int m * 2 powi e\<bar> < 2 powi (e + 53)" using m by (rule dyadic_abs_less)
  also have "\<dots> \<le> 2 powi 1024" by (rule two_powi_mono) (use e in simp)
  finally have "\<bar>real_of_int m * 2 powi e\<bar> < overflow_threshold"
    by (simp only: overflow_threshold_powi)
  then show ?thesis using m e(1) by (simp add: is_double_iff round_to_double_dyadic)
qed

lemma is_double_of_int: "\<bar>n\<bar> < 2 ^ 53 \<Longrightarrow> is_double (real_of_int n)"
  using is_double_dyadic [of n 0] by simp


lemma is_double_zero: "is_double 0"
  using is_double_of_int [of 0] by simp







section \<open>Properties of the dirty-region mapping\<close>

lemma wrap_int_id: "fits_int z \<Longrightarrow> wrap_int z = z"
  by (simp add: wrap_int_def fits_int_def int_min_def int_max_def)

lemma wrap_int_range: "int_min \<le> wrap_int z \<and> wrap_int z \<le> int_max"
  unfolding wrap_int_def int_min_def int_max_def
  using pos_mod_bound [of 4294967296 "z + 2147483648"] pos_mod_sign [of 4294967296 "z + 2147483648"]
  by linarith

lemma static_cast_int_of_int:
  "fits_int z \<Longrightarrow> static_cast_int ub (Some (real_of_int z)) = z"
  by (auto simp add: static_cast_int_def fits_int_def int_min_def int_max_def)

lemma cast_floor:
  "fits_int \<lfloor>q\<rfloor> \<Longrightarrow> static_cast_int ub (std_floor (Some q)) = \<lfloor>q\<rfloor>"
  by (simp add: std_floor_def static_cast_int_of_int)

lemma cast_ceil:
  "fits_int \<lceil>q\<rceil> \<Longrightarrow> static_cast_int ub (std_ceil (Some q)) = \<lceil>q\<rceil>"
  by (simp add: std_ceil_def static_cast_int_of_int)

lemma clamp_to_range: "0 \<le> hi \<Longrightarrow> 0 \<le> clamp_to hi z \<and> clamp_to hi z \<le> hi"
  by (auto simp add: clamp_to_def)

lemma calculate_dirty_cells_quotients:
  "calculate_dirty_cells ub r cw ch rows cols ox oy =
     (let start_col1 = max 0 (min (static_cast_int ub (std_floor (left_quotient r cw ox))) cols);
          end_col1 = max 0 (min (static_cast_int ub (std_ceil (right_quotient r cw ox))) cols);
          start_row1 = max 0 (min (int_sub rows (static_cast_int ub (std_ceil (top_quotient r ch oy)))) rows);
          end_row1 = max 0 (min (int_sub rows (static_cast_int ub (std_floor (bottom_quotient r ch oy)))) rows)
      in if start_row1 > end_row1
         then \<lparr>start_row = end_row1, end_row = start_row1,
               start_col = start_col1, end_col = end_col1\<rparr>
         else \<lparr>start_row = start_row1, end_row = end_row1,
               start_col = start_col1, end_col = end_col1\<rparr>)"
  by (simp only: calculate_dirty_cells_def left_quotient_def right_quotient_def
      top_quotient_def bottom_quotient_def Let_def)

lemma calculate_dirty_cells_defined:
  assumes q: "left_quotient r cw ox = Some ql" "right_quotient r cw ox = Some qr"
      "top_quotient r ch oy = Some qt" "bottom_quotient r ch oy = Some qb"
    and f: "fits_int \<lfloor>ql\<rfloor>" "fits_int \<lceil>qr\<rceil>" "fits_int \<lceil>qt\<rceil>" "fits_int \<lfloor>qb\<rfloor>"
      "fits_int (rows - \<lceil>qt\<rceil>)" "fits_int (rows - \<lfloor>qb\<rfloor>)"
  shows "calculate_dirty_cells ub r cw ch rows cols ox oy =
     \<lparr>start_row = min (clamp_to rows (rows - \<lceil>qt\<rceil>)) (clamp_to rows (rows - \<lfloor>qb\<rfloor>)),
      end_row = max (clamp_to rows (rows - \<lceil>qt\<rceil>)) (clamp_to rows (rows - \<lfloor>qb\<rfloor>)),
      start_col = clamp_to cols \<lfloor>ql\<rfloor>,
      end_col = clamp_to cols \<lceil>qr\<rceil>\<rparr>"
  unfolding calculate_dirty_cells_quotients q Let_def
  by (simp add: cast_floor [OF f(1)] cast_ceil [OF f(2)] cast_ceil [OF f(3)] cast_floor [OF f(4)]
      int_sub_def wrap_int_id [OF f(5)] wrap_int_id [OF f(6)] clamp_to_def min_def max_def)







lemma clamp_bounds:
  fixes c hi :: int
  shows "0 \<le> hi \<Longrightarrow> 0 \<le> max 0 (min c hi) \<and> max 0 (min c hi) \<le> hi"
  by simp

lemma calculate_dirty_cells_bounds:
  assumes "0 \<le> rows" "0 \<le> cols"
  shows "0 \<le> start_row (calculate_dirty_cells ub r cw ch rows cols ox oy) \<and>
         start_row (calculate_dirty_cells ub r cw ch rows cols ox oy) \<le>
           end_row (calculate_dirty_cells ub r cw ch rows cols ox oy) \<and>
         end_row (calculate_dirty_cells ub r cw ch rows cols ox oy) \<le> rows \<and>
         0 \<le> start_col (calculate_dirty_cells ub r cw ch rows cols ox oy) \<and>
         start_col (calculate_dirty_cells ub r cw ch rows cols ox oy) \<le> cols \<and>
         0 \<le> end_col (calculate_dirty_cells ub r cw ch rows cols ox oy) \<and>
         end_col (calculate_dirty_cells ub r cw ch rows cols ox oy) \<le> cols"
proof -
  define a where "a = int_sub rows (static_cast_int ub (std_ceil (top_quotient r ch oy)))"
  define b where "b = int_sub rows (static_cast_int ub (std_floor (bottom_quotient r ch oy)))"
  define c where "c = static_cast_int ub (std_floor (left_quotient r cw ox))"
  define d where "d = static_cast_int ub (std_ceil (right_quotient r cw ox))"
  define s where "s = max 0 (min a rows)"
  define e where "e = max 0 (min b rows)"
  have eq: "calculate_dirty_cells ub r cw ch rows cols ox oy =
      (if s > e then \<lparr>start_row = e, end_row = s, start_col = max 0 (min c cols), end_col = max 0 (min d cols)\<rparr>
       else \<lparr>start_row = s, end_row = e, start_col = max 0 (min c cols), end_col = max 0 (min d cols)\<rparr>)"
    unfolding calculate_dirty_cells_quotients Let_def s_def e_def a_def b_def c_def d_def ..
  have sb: "0 \<le> s" "s \<le> rows" "0 \<le> e" "e \<le> rows"
    using clamp_bounds [OF assms(1)] by (simp_all add: s_def e_def)
  have cb: "0 \<le> max 0 (min c cols)" "max 0 (min c cols) \<le> cols"
           "0 \<le> max 0 (min d cols)" "max 0 (min d cols) \<le> cols"
    using clamp_bounds [OF assms(2)] by simp_all
  show ?thesis
  proof (cases "s > e")
    case True
    then show ?thesis using sb cb by (simp add: eq)
  next
    case False
    then show ?thesis using sb cb by (simp add: eq)
  qed
qed

subsection \<open>Evaluation of the operations\<close>

lemma cg_round_of_int: "\<bar>n\<bar> < 2 ^ 53 \<Longrightarrow> cg_round (real_of_int n) = Some (real_of_int n)"
  by (rule cg_round_double) (rule is_double_of_int)

lemma cg_round_zero: "cg_round 0 = Some 0"
  using cg_round_of_int [of 0] by simp

lemma cg_round_one: "cg_round 1 = Some 1"
  using cg_round_of_int [of 1] by simp

lemma cg_round_numeral:
  "numeral k < (2::int) ^ 53 \<Longrightarrow> cg_round (numeral k) = Some (numeral k)"
  using cg_round_of_int [of "numeral k"] by simp



























text \<open>
  A rectangle outside the grid whose right edge is \<open>10^11\<close> pixels away has a quotient that
  does not fit in an \<^verbatim>\<open>int\<close>, and the conversion is undefined. Where an undefined
  conversion returns \<^verbatim>\<open>INT_MIN\<close>, the source returns \<open>start_col = 80\<close> and \<open>end_col = 0\<close>: no
  cell is visited, but neither pair of bounds is equal.
\<close>

lemma far_rect_undefined_conversion:
  "outside_grid \<lparr>origin_x = 640, origin_y = 0, size_width = 100000000000, size_height = 16\<rparr>
     8 16 1 80 0 0 \<and>
   \<not> conversions_defined \<lparr>origin_x = 640, origin_y = 0, size_width = 100000000000, size_height = 16\<rparr>
     8 16 1 0 0 \<and>
   calculate_dirty_cells (\<lambda>q. int_min)
       \<lparr>origin_x = 640, origin_y = 0, size_width = 100000000000, size_height = 16\<rparr> 8 16 1 80 0 0 =
     \<lparr>start_row = 0, end_row = 1, start_col = 80, end_col = 0\<rparr>"
proof -
  let ?r = "\<lparr>origin_x = 640, origin_y = 0, size_width = 100000000000, size_height = 16\<rparr> :: CGRect"
  have q: "left_quotient ?r 8 0 = Some 80" "right_quotient ?r 8 0 = Some 12500000080"
      "top_quotient ?r 16 0 = Some 1" "bottom_quotient ?r 16 0 = Some 0"
    by (simp_all add: left_quotient_def right_quotient_def top_quotient_def bottom_quotient_def
      cg_sub_def cg_add_def cg_div_def cg_round_zero cg_round_one cg_round_numeral)
  have "outside_grid ?r 8 16 1 80 0 0" by (simp add: outside_grid_def)
  moreover have "\<not> conversions_defined ?r 8 16 1 0 0"
    by (simp add: conversions_defined_def q fits_int_def int_min_def int_max_def)
  moreover have "calculate_dirty_cells (\<lambda>q. int_min) ?r 8 16 1 80 0 0 =
     \<lparr>start_row = 0, end_row = 1, start_col = 80, end_col = 0\<rparr>"
    unfolding calculate_dirty_cells_quotients q
    by (simp add: std_floor_def std_ceil_def static_cast_int_def int_sub_def wrap_int_def
        int_min_def Let_def)
  ultimately show ?thesis by simp
qed






section \<open>Properties of the colour cache\<close>

lemma lru_scan_cases:
  "(lru_scan es acc = acc \<and> (\<forall>e\<in>set es. snd acc \<le> snd e)) \<or>
   (lru_scan es acc \<in> set es \<and> snd (lru_scan es acc) < snd acc \<and>
    (\<forall>e\<in>set es. snd (lru_scan es acc) \<le> snd e))"
proof (induction es arbitrary: acc)
  case Nil
  then show ?case by simp
next
  case (Cons entry es)
  show ?case
  proof (cases "snd entry < snd acc")
    case True
    from Cons.IH [of entry] True show ?thesis by (auto simp add: less_le_trans)
  next
    case False
    from Cons.IH [of acc] False show ?thesis by auto
  qed
qed

lemma lru_scan_found:
  assumes "es \<noteq> []" and "\<forall>e\<in>set es. snd e < m"
  shows "lru_scan es (k0, m) \<in> set es \<and> (\<forall>e\<in>set es. snd (lru_scan es (k0, m)) \<le> snd e)"
proof -
  from assms obtain e where "e \<in> set es" "snd e < m" by (cases es) auto
  then have "\<not> (\<forall>e\<in>set es. snd (k0, m) \<le> snd e)" by force
  with lru_scan_cases [of es "(k0, m)"] show ?thesis by blast
qed

lemma length_alist_update:
  "length (AList.update k v al) = (if k \<in> fst ` set al then length al else Suc (length al))"
  by (induction al) (auto simp add: image_iff)

lemma length_alist_delete:
  "distinct (map fst al) \<Longrightarrow> k \<in> fst ` set al \<Longrightarrow> Suc (length (AList.delete k al)) = length al"
  by (induction al) (auto simp add: image_iff)

lemma keys_alist_delete: "fst ` set (AList.delete k al) = fst ` set al - {k}"
  by (induction al) auto

lemma set_alist_delete: "set (AList.delete k al) = {e \<in> set al. fst e \<noteq> k}"
  by (induction al) auto

lemma set_alist_update_subset: "set (AList.update k v al) \<subseteq> insert (k, v) (set al)"
  by (induction al) auto

lemma map_of_None_keys: "map_of al k = None \<longleftrightarrow> k \<notin> fst ` set al"
  by (simp add: map_of_eq_None_iff)

lemma size_t_incr_less: "c < SIZE_MAX \<Longrightarrow> size_t_incr c = Suc c"
  by (simp add: size_t_incr_def)

lemma evict_lru_nonempty:
  assumes inv: "cc_inv s" and ne: "cc_cache s \<noteq> []" and c: "cc_access_counter s \<le> SIZE_MAX"
  shows "\<exists>k a. (k, a) \<in> set (cc_access_order s) \<and> k \<in> cc_keys s \<and>
           (\<forall>e\<in>set (cc_access_order s). a \<le> snd e) \<and>
           lru_scan (cc_access_order s) (0, SIZE_MAX) = (k, a) \<and>
           evict_lru s = s\<lparr>cc_cache := AList.delete k (cc_cache s),
                            cc_access_order := AList.delete k (cc_access_order s)\<rparr>"
proof -
  from inv have keys: "cc_keys s = cc_order_keys s"
    and st: "\<forall>e\<in>set (cc_access_order s). snd e < cc_access_counter s"
    by (simp_all add: cc_inv_def list_all_iff)
  from ne keys have one: "cc_access_order s \<noteq> []"
    by (auto simp add: cc_keys_def cc_order_keys_def)
  from st c have lt: "\<forall>e\<in>set (cc_access_order s). snd e < SIZE_MAX" by auto
  obtain k a where ka: "lru_scan (cc_access_order s) (0, SIZE_MAX) = (k, a)"
    by (cases "lru_scan (cc_access_order s) (0, SIZE_MAX)") auto
  from lru_scan_found [OF one lt, of 0] ka
  have mem: "(k, a) \<in> set (cc_access_order s)" and least: "\<forall>e\<in>set (cc_access_order s). a \<le> snd e"
    by simp_all
  from mem have "k \<in> cc_order_keys s" by (force simp add: cc_order_keys_def)
  with keys have kin: "k \<in> cc_keys s" by simp
  then obtain c' where "map_of (cc_cache s) k = Some c'"
    using map_of_None_keys [of "cc_cache s" k] by (auto simp add: cc_keys_def)
  then have "evict_lru s = s\<lparr>cc_cache := AList.delete k (cc_cache s),
                            cc_access_order := AList.delete k (cc_access_order s)\<rparr>"
    by (simp add: evict_lru_def ka)
  with mem kin least ka show ?thesis by blast
qed

lemma evict_lru_inv:
  assumes inv: "cc_inv s" and ne: "cc_cache s \<noteq> []" and c: "cc_access_counter s \<le> SIZE_MAX"
  shows "cc_inv (evict_lru s) \<and> Suc (length (cc_cache (evict_lru s))) = length (cc_cache s) \<and>
         cc_access_counter (evict_lru s) = cc_access_counter s \<and>
         cc_max_size (evict_lru s) = cc_max_size s \<and> cc_keys (evict_lru s) \<subseteq> cc_keys s"
proof -
  from evict_lru_nonempty [OF assms] obtain k a where
    kin: "k \<in> cc_keys s" and
    ev: "evict_lru s = s\<lparr>cc_cache := AList.delete k (cc_cache s),
                            cc_access_order := AList.delete k (cc_access_order s)\<rparr>"
    by blast
  from inv have d1: "distinct (map fst (cc_cache s))" and d2: "distinct (map fst (cc_access_order s))"
    and keys: "cc_keys s = cc_order_keys s" and len: "length (cc_cache s) \<le> cc_max_size s"
    and st: "\<forall>e\<in>set (cc_access_order s). snd e < cc_access_counter s"
    by (simp_all add: cc_inv_def list_all_iff)
  have l: "Suc (length (AList.delete k (cc_cache s))) = length (cc_cache s)"
    using d1 kin by (intro length_alist_delete) (simp_all add: cc_keys_def)
  have k': "fst ` set (AList.delete k (cc_cache s)) = fst ` set (AList.delete k (cc_access_order s))"
    using keys by (simp only: keys_alist_delete cc_keys_def cc_order_keys_def)
  have st': "\<forall>e\<in>set (AList.delete k (cc_access_order s)). snd e < cc_access_counter s"
    using st by (simp add: set_alist_delete)
  have "cc_inv (evict_lru s)"
    unfolding cc_inv_def ev
    using d1 d2 k' len st' l
    by (simp add: distinct_delete cc_keys_def cc_order_keys_def list_all_iff)
  moreover have "cc_keys (evict_lru s) \<subseteq> cc_keys s"
    by (auto simp add: ev cc_keys_def keys_alist_delete)
  ultimately show ?thesis using l by (simp add: ev)
qed

lemma get_color_inv:
  assumes inv: "cc_inv s" and c: "cc_access_counter s < SIZE_MAX" and m: "1 \<le> cc_max_size s"
  shows "cc_inv (snd (get_color nv r g b alpha s)) \<and>
         cc_access_counter (snd (get_color nv r g b alpha s)) \<le> Suc (cc_access_counter s) \<and>
         cc_max_size (snd (get_color nv r g b alpha s)) = cc_max_size s"
proof -
  let ?key = "pack_rgb r g b"
  from inv have d1: "distinct (map fst (cc_cache s))" and d2: "distinct (map fst (cc_access_order s))"
    and keys: "cc_keys s = cc_order_keys s" and len: "length (cc_cache s) \<le> cc_max_size s"
    and st: "\<forall>e\<in>set (cc_access_order s). snd e < cc_access_counter s"
    by (simp_all add: cc_inv_def list_all_iff)
  show ?thesis
  proof (cases "map_of (cc_cache s) ?key")
    case (Some col)
    then have kin: "?key \<in> cc_keys s"
      using map_of_None_keys [of "cc_cache s" ?key] by (auto simp add: cc_keys_def)
    have res: "snd (get_color nv r g b alpha s) =
        s\<lparr>cc_access_order := AList.update ?key (cc_access_counter s) (cc_access_order s),
          cc_access_counter := Suc (cc_access_counter s)\<rparr>"
      using Some c by (simp add: get_color_def Let_def size_t_incr_less)
    have "\<forall>e\<in>set (AList.update ?key (cc_access_counter s) (cc_access_order s)).
            snd e < Suc (cc_access_counter s)"
      using st set_alist_update_subset [of ?key "cc_access_counter s" "cc_access_order s"]
      by (auto simp add: less_Suc_eq)
    then have "cc_inv (snd (get_color nv r g b alpha s))"
      unfolding res cc_inv_def using d1 d2 keys len kin
      by (auto simp add: distinct_update cc_keys_def cc_order_keys_def dom_update list_all_iff)
    then show ?thesis by (simp add: res)
  next
    case None
    then have knot: "?key \<notin> cc_keys s"
      using map_of_None_keys [of "cc_cache s" ?key] by (simp add: cc_keys_def)
    show ?thesis
    proof (cases "color_space_create nv")
      case N1: None
      then show ?thesis using None inv by (simp add: get_color_def Let_def)
    next
      case (Some sp)
      note sp = this
      show ?thesis
      proof (cases "cg_color_create nv r g b alpha")
        case N2: None
        then show ?thesis using None sp inv by (simp add: get_color_def Let_def)
      next
        case (Some color)
        define s1 where "s1 = (if length (cc_cache s) \<ge> cc_max_size s then evict_lru s else s)"
        have res: "snd (get_color nv r g b alpha s) =
          s1\<lparr>cc_cache := AList.update ?key color (cc_cache s1),
              cc_access_order := AList.update ?key (cc_access_counter s1) (cc_access_order s1),
              cc_access_counter := size_t_incr (cc_access_counter s1)\<rparr>"
          using None sp Some by (simp add: get_color_def Let_def s1_def)
        have s1: "cc_inv s1 \<and> Suc (length (cc_cache s1)) \<le> cc_max_size s \<and>
                  cc_access_counter s1 = cc_access_counter s \<and> cc_max_size s1 = cc_max_size s \<and>
                  cc_keys s1 \<subseteq> cc_keys s"
        proof (cases "length (cc_cache s) \<ge> cc_max_size s")
          case True
          with m have ne: "cc_cache s \<noteq> []" by auto
          from c have c': "cc_access_counter s \<le> SIZE_MAX" by simp
          from evict_lru_inv [OF inv ne c'] True len show ?thesis by (simp add: s1_def)
        next
          case False
          then show ?thesis using inv by (simp add: s1_def)
        qed
        then have i1: "cc_inv s1" and l1: "Suc (length (cc_cache s1)) \<le> cc_max_size s"
          and c1: "cc_access_counter s1 = cc_access_counter s" and m1: "cc_max_size s1 = cc_max_size s"
          and k1: "cc_keys s1 \<subseteq> cc_keys s" by simp_all
        from i1 have e1: "distinct (map fst (cc_cache s1))" and e2: "distinct (map fst (cc_access_order s1))"
          and keys1: "cc_keys s1 = cc_order_keys s1"
          and st1: "\<forall>e\<in>set (cc_access_order s1). snd e < cc_access_counter s1"
          by (simp_all add: cc_inv_def list_all_iff)
        from knot k1 have knot1: "?key \<notin> fst ` set (cc_cache s1)" by (auto simp add: cc_keys_def)
        have stn: "\<forall>e\<in>set (AList.update ?key (cc_access_counter s) (cc_access_order s1)).
            snd e < Suc (cc_access_counter s)"
          using st1 c1 set_alist_update_subset [of ?key "cc_access_counter s" "cc_access_order s1"]
          by (auto simp add: less_Suc_eq)
        have "cc_inv (snd (get_color nv r g b alpha s))"
          unfolding res cc_inv_def using e1 e2 keys1 l1 knot1 stn c1 m1 c
          by (auto simp add: distinct_update cc_keys_def cc_order_keys_def dom_update list_all_iff
              length_alist_update size_t_incr_less)
        then show ?thesis using c c1 m1 by (simp add: res size_t_incr_less)
      qed
    qed
  qed
qed

lemma cc_clear_inv: "cc_inv (cc_clear s) \<and> cc_access_counter (cc_clear s) = 0 \<and>
    cc_max_size (cc_clear s) = cc_max_size s"
  by (simp add: cc_inv_def cc_clear_def cc_keys_def cc_order_keys_def)

lemma cc_apply_inv:
  assumes "cc_inv s" "cc_access_counter s < SIZE_MAX" "1 \<le> cc_max_size s"
  shows "cc_inv (cc_apply nv s op) \<and> cc_access_counter (cc_apply nv s op) \<le> Suc (cc_access_counter s) \<and>
         cc_max_size (cc_apply nv s op) = cc_max_size s"
proof (cases op)
  case (Get_color r g b alpha)
  then show ?thesis using get_color_inv [OF assms] by simp
next
  case Clear
  then show ?thesis using cc_clear_inv [of s] by simp
qed

lemma cc_run_inv:
  assumes "cc_inv s" "cc_access_counter s + length ops \<le> SIZE_MAX" "1 \<le> cc_max_size s"
  shows "cc_inv (cc_run nv ops s) \<and> cc_access_counter (cc_run nv ops s) \<le> cc_access_counter s + length ops \<and>
         cc_max_size (cc_run nv ops s) = cc_max_size s"
  using assms
proof (induction ops arbitrary: s)
  case Nil
  then show ?case by (simp add: cc_run_def)
next
  case (Cons op ops)
  from Cons.prems have lt: "cc_access_counter s < SIZE_MAX" by simp
  from cc_apply_inv [OF Cons.prems(1) lt Cons.prems(3), of nv op]
  have i: "cc_inv (cc_apply nv s op)" and c: "cc_access_counter (cc_apply nv s op) \<le> Suc (cc_access_counter s)"
    and m: "cc_max_size (cc_apply nv s op) = cc_max_size s" by simp_all
  from c Cons.prems(2) have c': "cc_access_counter (cc_apply nv s op) + length ops \<le> SIZE_MAX" by simp
  from m Cons.prems(3) have m': "1 \<le> cc_max_size (cc_apply nv s op)" by simp
  from Cons.IH [OF i c' m'] c m show ?case by (simp add: cc_run_def)
qed

lemma ColorCache_new_inv: "cc_inv (ColorCache_new m)"
  by (simp add: cc_inv_def ColorCache_new_def cc_keys_def cc_order_keys_def)

text \<open>
  Claim C10. A colour cache constructed with \<open>max_size \<ge> 1\<close> holds at most \<open>max_size\<close>
  entries after any sequence of \<^verbatim>\<open>get_color\<close> and \<^verbatim>\<open>clear\<close> calls, and its cache map and its
  access-order map have the same keys. The sequence is shorter than \<open>2^64\<close> calls, so that
  the 64-bit access counter has not wrapped around.
\<close>

theorem color_cache_size_and_keys:
  assumes "1 \<le> max_size" and "length ops \<le> SIZE_MAX"
  shows "cc_size (cc_run nv ops (ColorCache_new max_size)) \<le> max_size \<and>
         cc_keys (cc_run nv ops (ColorCache_new max_size)) =
           cc_order_keys (cc_run nv ops (ColorCache_new max_size))"
proof -
  have c: "cc_access_counter (ColorCache_new max_size) + length ops \<le> SIZE_MAX"
    using assms(2) by (simp add: ColorCache_new_def)
  have m: "1 \<le> cc_max_size (ColorCache_new max_size)"
    using assms(1) by (simp add: ColorCache_new_def)
  from cc_run_inv [OF ColorCache_new_inv c m, of nv]
  show ?thesis by (simp add: cc_inv_def cc_size_def ColorCache_new_def)
qed

lemma pack_rgb_b: "ucast (pack_rgb r g b) = b"
  by (rule bit_word_eqI) (auto simp add: pack_rgb_def bit_simps dest: bit_imp_le_length)

lemma pack_rgb_g: "ucast (drop_bit 8 (pack_rgb r g b)) = g"
  by (rule bit_word_eqI) (auto simp add: pack_rgb_def bit_simps dest: bit_imp_le_length)

lemma pack_rgb_r: "ucast (drop_bit 16 (pack_rgb r g b)) = r"
  by (rule bit_word_eqI) (auto simp add: pack_rgb_def bit_simps dest: bit_imp_le_length)

lemma pack_rgb_inj: "pack_rgb r g b = pack_rgb r' g' b' \<Longrightarrow> r = r' \<and> g = g' \<and> b = b'"
  by (metis pack_rgb_b pack_rgb_g pack_rgb_r)

lemma rgb_key_inj: "inj rgb_key"
  by (rule injI) (auto simp add: rgb_key_def dest: pack_rgb_inj)

lemma cc_run_snoc: "cc_run nv (ops @ [op]) s = cc_apply nv (cc_run nv ops s) op"
  by (simp add: cc_run_def)

lemma gets_snoc: "gets (cs @ [(r, g, b)]) = gets cs @ [Get_color r g b 1]"
  by (simp add: gets_def)

lemma creates_all_snoc:
  "creates_all nv (cs @ [(r, g, b)]) \<longleftrightarrow> creates_all nv cs \<and> cg_color_create nv r g b 1 \<noteq> None"
  by (auto simp add: creates_all_def)

lemma get_color_miss:
  assumes "map_of (cc_cache s) (pack_rgb r g b) = None"
    and "color_space_create nv = Some sp" and "cg_color_create nv r g b alpha = Some color"
  shows "snd (get_color nv r g b alpha s) =
     (let s1 = (if length (cc_cache s) \<ge> cc_max_size s then evict_lru s else s)
      in s1\<lparr>cc_cache := AList.update (pack_rgb r g b) color (cc_cache s1),
             cc_access_order := AList.update (pack_rgb r g b) (cc_access_counter s1) (cc_access_order s1),
             cc_access_counter := size_t_incr (cc_access_counter s1)\<rparr>)"
  using assms by (simp add: get_color_def Let_def)

lemma get_color_hit:
  assumes "map_of (cc_cache s) (pack_rgb r g b) = Some c"
  shows "get_color nv r g b alpha s =
     (Inr c, s\<lparr>cc_access_order := AList.update (pack_rgb r g b) (cc_access_counter s) (cc_access_order s),
                cc_access_counter := size_t_incr (cc_access_counter s)\<rparr>)"
  using assms by (simp add: get_color_def Let_def)

lemma rgb_key_triple: "rgb_key (r, g, b) = pack_rgb r g b"
  by (simp add: rgb_key_def)

lemma set_alist_update:
  "distinct (map fst al) \<Longrightarrow> set (AList.update k v al) = insert (k, v) {e \<in> set al. fst e \<noteq> k}"
  by (induction al) (auto simp add: image_iff)

lemma get_color_evicts:
  assumes inv: "cc_inv s" and full: "length (cc_cache s) = cc_max_size s"
    and m: "1 \<le> cc_max_size s" and c: "cc_access_counter s < SIZE_MAX"
    and miss: "pack_rgb r g b \<notin> cc_keys s"
    and sp: "color_space_create nv = Some sp" and col: "cg_color_create nv r g b alpha = Some color"
    and victim: "(k, a) \<in> set (cc_access_order s)"
    and least: "\<forall>e\<in>set (cc_access_order s). fst e \<noteq> k \<longrightarrow> a < snd e"
  shows "cc_keys (snd (get_color nv r g b alpha s)) = insert (pack_rgb r g b) (cc_keys s - {k})"
proof -
  from full m have ne: "cc_cache s \<noteq> []" by auto
  from c have c': "cc_access_counter s \<le> SIZE_MAX" by simp
  from evict_lru_nonempty [OF inv ne c'] obtain k' a' where
    mem: "(k', a') \<in> set (cc_access_order s)" and
    min: "\<forall>e\<in>set (cc_access_order s). a' \<le> snd e" and
    ev: "evict_lru s = s\<lparr>cc_cache := AList.delete k' (cc_cache s),
                            cc_access_order := AList.delete k' (cc_access_order s)\<rparr>"
    by blast
  have "k' = k"
  proof (rule ccontr)
    assume "k' \<noteq> k"
    with least mem have "a < a'" by force
    moreover from min victim have "a' \<le> a" by force
    ultimately show False by simp
  qed
  have none: "map_of (cc_cache s) (pack_rgb r g b) = None"
    using miss map_of_None_keys [of "cc_cache s" "pack_rgb r g b"] by (simp add: cc_keys_def)
  show ?thesis
    using full
    by (simp add: get_color_miss [OF none sp col] ev \<open>k' = k\<close> cc_keys_def dom_update keys_alist_delete)
qed

lemma pack_ex: "pack_rgb 1 2 3 = 66051" "pack_rgb 4 5 6 = 263430" "pack_rgb 7 8 9 = 460809"
  by (simp_all add: pack_rgb_def)

lemma sample_creates: "creates_all sample_natives cs"
  by (induction cs) (auto simp add: creates_all_def sample_natives_def)

theorem color_cache_size_and_keys_witness:
  "(1::nat) \<le> 2 \<and>
   length (gets [(1, 2, 3), (4, 5, 6), (1, 2, 3)] @ [Clear] @ gets [(7, 8, 9), (4, 5, 6), (1, 2, 3)]) \<le> SIZE_MAX \<and>
   cc_size (cc_run sample_natives
      (gets [(1, 2, 3), (4, 5, 6), (1, 2, 3)] @ [Clear] @ gets [(7, 8, 9), (4, 5, 6), (1, 2, 3)])
      (ColorCache_new 2)) \<le> 2 \<and>
   cc_keys (cc_run sample_natives
      (gets [(1, 2, 3), (4, 5, 6), (1, 2, 3)] @ [Clear] @ gets [(7, 8, 9), (4, 5, 6), (1, 2, 3)])
      (ColorCache_new 2)) =
   cc_order_keys (cc_run sample_natives
      (gets [(1, 2, 3), (4, 5, 6), (1, 2, 3)] @ [Clear] @ gets [(7, 8, 9), (4, 5, 6), (1, 2, 3)])
      (ColorCache_new 2))"
proof -
  let ?ops = "gets [(1, 2, 3), (4, 5, 6), (1, 2, 3)] @ [Clear] @ gets [(7, 8, 9), (4, 5, 6), (1, 2, 3)]"
  have h1: "(1::nat) \<le> 2" by simp
  have h2: "length ?ops \<le> SIZE_MAX" by (simp add: gets_def SIZE_MAX_def)
  from color_cache_size_and_keys [OF h1 h2, of sample_natives] h1 h2
  show ?thesis by blast
qed

section \<open>Least-recently-used eviction of the colour cache\<close>

lemma take_removeAll_hit:
  "distinct R \<Longrightarrow> k \<in> set (take (Suc n) R) \<Longrightarrow>
     take n (removeAll k R) = removeAll k (take (Suc n) R)"
proof (induction R arbitrary: n)
  case Nil
  then show ?case by simp
next
  case (Cons x R)
  show ?case
  proof (cases "x = k")
    case True
    with Cons.prems(1) have "k \<notin> set R" by simp
    then have "k \<notin> set (take n R)" by (auto dest: in_set_takeD)
    with True \<open>k \<notin> set R\<close> show ?thesis by simp
  next
    case False
    with Cons.prems(2) have "k \<in> set (take n R)" by simp
    then obtain n' where n: "n = Suc n'" by (cases n) auto
    with Cons.IH [of n'] Cons.prems \<open>k \<in> set (take n R)\<close> False show ?thesis by simp
  qed
qed

lemma take_removeAll_miss:
  "k \<notin> set (take (Suc n) R) \<Longrightarrow> take n (removeAll k R) = take n R"
proof (induction R arbitrary: n)
  case Nil
  then show ?case by simp
next
  case (Cons x R)
  then show ?case by (cases n) auto
qed

lemma move_to_front_hit:
  assumes "distinct R" and "k \<in> set (take m R)"
  shows "take m (k # removeAll k R) = k # removeAll k (take m R)"
proof -
  from assms(2) obtain n where m: "m = Suc n" by (cases m) auto
  with assms show ?thesis by (simp add: take_removeAll_hit)
qed

lemma move_to_front_miss:
  assumes "k \<notin> set (take m R)" and "1 \<le> m"
  shows "take m (k # removeAll k R) = k # take (m - 1) R"
proof -
  from assms(2) obtain n where m: "m = Suc n" by (cases m) auto
  with assms show ?thesis by (simp add: take_removeAll_miss)
qed

lemma cc_stamp_mem:
  assumes "distinct (map fst (cc_access_order s))" and "(k, a) \<in> set (cc_access_order s)"
  shows "cc_stamp s k = a"
  using assms by (simp add: cc_stamp_def)

lemma cc_stamp_less:
  assumes "cc_inv s" and "k \<in> cc_keys s"
  shows "cc_stamp s k < cc_access_counter s" and "(k, cc_stamp s k) \<in> set (cc_access_order s)"
proof -
  from assms(1) have d: "distinct (map fst (cc_access_order s))"
    and keys: "cc_keys s = cc_order_keys s"
    and st: "\<forall>e\<in>set (cc_access_order s). snd e < cc_access_counter s"
    by (simp_all add: cc_inv_def list_all_iff)
  from assms(2) keys obtain a where a: "(k, a) \<in> set (cc_access_order s)"
    by (auto simp add: cc_order_keys_def)
  with d have "cc_stamp s k = a" by (rule cc_stamp_mem)
  with a st show "cc_stamp s k < cc_access_counter s" and "(k, cc_stamp s k) \<in> set (cc_access_order s)"
    by auto
qed

lemma cc_size_recent:
  assumes "lru_inv m R s"
  shows "length (cc_cache s) = length (take m R)"
proof -
  from assms have ci: "cc_inv s" and dr: "distinct R" and k: "cc_keys s = set (take m R)"
    by (simp_all add: lru_inv_def)
  from ci have d: "distinct (map fst (cc_cache s))" by (simp add: cc_inv_def)
  have "length (cc_cache s) = card (set (map fst (cc_cache s)))"
    using distinct_card [OF d] by simp
  also have "\<dots> = card (set (take m R))" using k by (simp add: cc_keys_def)
  also have "\<dots> = length (take m R)" using dr by (intro distinct_card distinct_take)
  finally show ?thesis .
qed

lemma sorted_stamps_cong:
  assumes "sorted_wrt (\<lambda>a b. cc_stamp s b < cc_stamp s a) L"
    and "\<forall>x\<in>set L. cc_stamp s' x = cc_stamp s x"
  shows "sorted_wrt (\<lambda>a b. cc_stamp s' b < cc_stamp s' a) L"
  using assms(1)
  by (rule sorted_wrt_mono_rel [rotated]) (use assms(2) in simp)

lemma get_color_lru_hit:
  assumes inv: "lru_inv m R s" and m: "1 \<le> m" and c: "cc_access_counter s < SIZE_MAX"
    and hit: "pack_rgb r g b \<in> cc_keys s"
  shows "lru_inv m (pack_rgb r g b # removeAll (pack_rgb r g b) R) (snd (get_color nv r g b alpha s))"
    and "cc_access_counter (snd (get_color nv r g b alpha s)) = Suc (cc_access_counter s)"
proof -
  let ?k = "pack_rgb r g b"
  let ?L = "take m R"
  let ?s' = "snd (get_color nv r g b alpha s)"
  from inv have ci: "cc_inv s" and ms: "cc_max_size s = m" and dr: "distinct R"
    and keys: "cc_keys s = set ?L"
    and srt: "sorted_wrt (\<lambda>a b. cc_stamp s b < cc_stamp s a) ?L"
    by (simp_all add: lru_inv_def)
  from hit obtain col where some: "map_of (cc_cache s) ?k = Some col"
    using map_of_None_keys [of "cc_cache s" ?k] by (auto simp add: cc_keys_def)
  have s': "?s' = s\<lparr>cc_access_order := AList.update ?k (cc_access_counter s) (cc_access_order s),
                cc_access_counter := size_t_incr (cc_access_counter s)\<rparr>"
    by (simp add: get_color_hit [OF some])
  show cnt: "cc_access_counter ?s' = Suc (cc_access_counter s)"
    by (simp add: s' size_t_incr_less [OF c])
  have m': "1 \<le> cc_max_size s" using m ms by simp
  from get_color_inv [OF ci c m', of nv r g b alpha]
  have ci': "cc_inv ?s'" and ms': "cc_max_size ?s' = m" using ms by simp_all
  have L': "take m (?k # removeAll ?k R) = ?k # removeAll ?k ?L"
    using dr hit keys by (intro move_to_front_hit) simp_all
  have keys': "cc_keys ?s' = set (take m (?k # removeAll ?k R))"
    using hit keys by (auto simp add: L' s' cc_keys_def)
  have st_k: "cc_stamp ?s' ?k = cc_access_counter s"
    by (simp add: s' cc_stamp_def update_conv')
  have st_o: "cc_stamp ?s' x = cc_stamp s x" if "x \<noteq> ?k" for x
    using that by (simp add: s' cc_stamp_def update_conv')
  have "sorted_wrt (\<lambda>a b. cc_stamp s b < cc_stamp s a) (removeAll ?k ?L)"
    using srt by (simp add: removeAll_filter_not_eq sorted_wrt_filter)
  then have "sorted_wrt (\<lambda>a b. cc_stamp ?s' b < cc_stamp ?s' a) (removeAll ?k ?L)"
    by (rule sorted_stamps_cong) (simp add: st_o)
  moreover have "\<forall>x\<in>set (removeAll ?k ?L). cc_stamp ?s' x < cc_stamp ?s' ?k"
  proof
    fix x assume x: "x \<in> set (removeAll ?k ?L)"
    then have "x \<in> cc_keys s" and "x \<noteq> ?k" using keys by auto
    with cc_stamp_less(1) [OF ci] show "cc_stamp ?s' x < cc_stamp ?s' ?k"
      by (simp add: st_k st_o)
  qed
  ultimately have "sorted_wrt (\<lambda>a b. cc_stamp ?s' b < cc_stamp ?s' a) (take m (?k # removeAll ?k R))"
    by (simp add: L')
  then show "lru_inv m (?k # removeAll ?k R) ?s'"
    unfolding lru_inv_def using ci' ms' dr keys' by (simp add: distinct_removeAll)
qed

lemma get_color_lru_miss:
  assumes inv: "lru_inv m R s" and m: "1 \<le> m" and c: "cc_access_counter s < SIZE_MAX"
    and miss: "pack_rgb r g b \<notin> cc_keys s"
    and sp: "color_space_create nv = Some sp" and col: "cg_color_create nv r g b alpha = Some color"
  shows "lru_inv m (pack_rgb r g b # removeAll (pack_rgb r g b) R) (snd (get_color nv r g b alpha s))"
    and "cc_access_counter (snd (get_color nv r g b alpha s)) = Suc (cc_access_counter s)"
proof -
  let ?k = "pack_rgb r g b"
  let ?L = "take m R"
  let ?s' = "snd (get_color nv r g b alpha s)"
  from inv have ci: "cc_inv s" and ms: "cc_max_size s = m" and dr: "distinct R"
    and keys: "cc_keys s = set ?L"
    and srt: "sorted_wrt (\<lambda>a b. cc_stamp s b < cc_stamp s a) ?L"
    by (simp_all add: lru_inv_def)
  from ci have d2: "distinct (map fst (cc_access_order s))" and ko: "cc_keys s = cc_order_keys s"
    and len: "length (cc_cache s) \<le> cc_max_size s"
    by (simp_all add: cc_inv_def)
  have none: "map_of (cc_cache s) ?k = None"
    using miss map_of_None_keys [of "cc_cache s" ?k] by (simp add: cc_keys_def)
  have m': "1 \<le> cc_max_size s" using m ms by simp
  from get_color_inv [OF ci c m', of nv r g b alpha]
  have ci': "cc_inv ?s'" and ms': "cc_max_size ?s' = m" using ms by simp_all
  have size: "length (cc_cache s) = length ?L" using inv by (rule cc_size_recent)
  have kL: "?k \<notin> set ?L" using miss keys by simp
  have L': "take m (?k # removeAll ?k R) = ?k # take (m - 1) R"
    using kL m by (rule move_to_front_miss)
  have below: "cc_stamp s x < cc_access_counter s" if "x \<in> set ?L" for x
    using cc_stamp_less(1) [OF ci, of x] that keys by simp
  show "lru_inv m (?k # removeAll ?k R) ?s'"
    and "cc_access_counter ?s' = Suc (cc_access_counter s)"
  proof (atomize (full), cases "length (cc_cache s) \<ge> cc_max_size s")
    case False
    then have short: "length ?L < m" using size ms by simp
    then have LR: "?L = R" by simp
    from short have tk: "take (m - 1) R = R" "take (m - Suc 0) R = R" by simp_all
    have s': "?s' = s\<lparr>cc_cache := AList.update ?k color (cc_cache s),
        cc_access_order := AList.update ?k (cc_access_counter s) (cc_access_order s),
        cc_access_counter := size_t_incr (cc_access_counter s)\<rparr>"
      using False by (simp add: get_color_miss [OF none sp col])
    have cnt: "cc_access_counter ?s' = Suc (cc_access_counter s)"
      by (simp add: s' size_t_incr_less [OF c])
    have keys': "cc_keys ?s' = set (take m (?k # removeAll ?k R))"
      using keys LR by (simp add: L' tk s' cc_keys_def dom_update)
    have st_k: "cc_stamp ?s' ?k = cc_access_counter s"
      by (simp add: s' cc_stamp_def update_conv')
    have st_o: "cc_stamp ?s' x = cc_stamp s x" if "x \<noteq> ?k" for x
      using that by (simp add: s' cc_stamp_def update_conv')
    have same: "\<forall>x\<in>set R. cc_stamp ?s' x = cc_stamp s x"
    proof
      fix x assume "x \<in> set R"
      with kL LR have "x \<noteq> ?k" by auto
      then show "cc_stamp ?s' x = cc_stamp s x" by (rule st_o)
    qed
    have "sorted_wrt (\<lambda>a b. cc_stamp ?s' b < cc_stamp ?s' a) R"
      using srt same unfolding LR by (rule sorted_stamps_cong)
    moreover have "\<forall>x\<in>set R. cc_stamp ?s' x < cc_stamp ?s' ?k"
    proof
      fix x assume x: "x \<in> set R"
      then have "cc_stamp s x < cc_access_counter s" using below LR by simp
      with same x show "cc_stamp ?s' x < cc_stamp ?s' ?k" by (simp add: st_k)
    qed
    ultimately have "sorted_wrt (\<lambda>a b. cc_stamp ?s' b < cc_stamp ?s' a) (take m (?k # removeAll ?k R))"
      by (simp add: L' tk)
    then have "lru_inv m (?k # removeAll ?k R) ?s'"
      unfolding lru_inv_def using ci' ms' dr keys' by (simp add: distinct_removeAll)
    with cnt show "lru_inv m (?k # removeAll ?k R) ?s' \<and>
        cc_access_counter ?s' = Suc (cc_access_counter s)" by simp
  next
    case True
    with len have full: "length (cc_cache s) = cc_max_size s" by simp
    then have lenL: "length ?L = m" using size ms by simp
    then have mR: "m \<le> length R" by simp
    from lenL m have ne: "?L \<noteq> []" by auto
    let ?v = "last ?L"
    have split: "?L = butlast ?L @ [?v]" using ne by simp
    have bl: "butlast ?L = take (m - 1) R" using mR by (simp add: butlast_take)
    then have bl': "take (m - Suc 0) R = butlast ?L" by simp
    have dL: "distinct ?L" using dr by simp
    have vin: "?v \<in> cc_keys s" using ne keys by simp
    have vnot: "?v \<notin> set (butlast ?L)"
      using dL split by (metis distinct_butlast not_distinct_conv_prefix append_butlast_last_id ne)
    have older: "cc_stamp s ?v < cc_stamp s x" if "x \<in> set (butlast ?L)" for x
    proof -
      from srt split have "sorted_wrt (\<lambda>a b. cc_stamp s b < cc_stamp s a) (butlast ?L @ [?v])"
        by simp
      with that show ?thesis by (simp add: sorted_wrt_append)
    qed
    have victim: "(?v, cc_stamp s ?v) \<in> set (cc_access_order s)"
      using cc_stamp_less(2) [OF ci vin] .
    have least: "\<forall>e\<in>set (cc_access_order s). fst e \<noteq> ?v \<longrightarrow> cc_stamp s ?v < snd e"
    proof (intro ballI impI)
      fix e assume e: "e \<in> set (cc_access_order s)" and ne': "fst e \<noteq> ?v"
      then have "fst e \<in> cc_order_keys s" by (simp add: cc_order_keys_def)
      with ko keys have "fst e \<in> set ?L" by simp
      with split ne' have "fst e \<in> set (butlast ?L)"
        by (metis Un_iff empty_iff insert_iff list.set(1) list.set(2) set_append)
      then have "cc_stamp s ?v < cc_stamp s (fst e)" by (rule older)
      moreover have "cc_stamp s (fst e) = snd e"
        using d2 e by (intro cc_stamp_mem) simp_all
      ultimately show "cc_stamp s ?v < snd e" by simp
    qed
    have c': "cc_access_counter s \<le> SIZE_MAX" using c by simp
    have nec: "cc_cache s \<noteq> []" using full m' by auto
    from evict_lru_nonempty [OF ci nec c'] obtain k' a' where
      mem: "(k', a') \<in> set (cc_access_order s)" and
      mn: "\<forall>e\<in>set (cc_access_order s). a' \<le> snd e" and
      ev: "evict_lru s = s\<lparr>cc_cache := AList.delete k' (cc_cache s),
                            cc_access_order := AList.delete k' (cc_access_order s)\<rparr>"
      by blast
    have k'v: "k' = ?v"
    proof (rule ccontr)
      assume "k' \<noteq> ?v"
      with least mem have "cc_stamp s ?v < a'" by force
      moreover from mn victim have "a' \<le> cc_stamp s ?v" by force
      ultimately show False by simp
    qed
    have s': "?s' = s\<lparr>cc_cache := AList.update ?k color (AList.delete ?v (cc_cache s)),
        cc_access_order := AList.update ?k (cc_access_counter s) (AList.delete ?v (cc_access_order s)),
        cc_access_counter := size_t_incr (cc_access_counter s)\<rparr>"
      using True by (simp add: get_color_miss [OF none sp col] ev k'v)
    have cnt: "cc_access_counter ?s' = Suc (cc_access_counter s)"
      by (simp add: s' size_t_incr_less [OF c])
    have "set ?L - {?v} = set (butlast ?L)"
    proof -
      have "set ?L = insert ?v (set (butlast ?L))" using split
        by (metis Un_insert_right append_Nil2 list.set(2) set_append list.set(1))
      with vnot show ?thesis by auto
    qed
    then have keys': "cc_keys ?s' = set (take m (?k # removeAll ?k R))"
      using keys by (simp add: L' bl' s' cc_keys_def dom_update keys_alist_delete)
    have st_k: "cc_stamp ?s' ?k = cc_access_counter s"
      by (simp add: s' cc_stamp_def update_conv')
    have st_o: "cc_stamp ?s' x = cc_stamp s x" if "x \<noteq> ?k" "x \<noteq> ?v" for x
      using that by (simp add: s' cc_stamp_def update_conv' delete_conv')
    have inL: "x \<in> set ?L" if "x \<in> set (butlast ?L)" for x
      using that by (rule in_set_butlastD)
    have "sorted_wrt (\<lambda>a b. cc_stamp s b < cc_stamp s a) (butlast ?L)"
      using srt split by (metis sorted_wrt_append)
    moreover have same: "\<forall>x\<in>set (butlast ?L). cc_stamp ?s' x = cc_stamp s x"
    proof
      fix x assume x: "x \<in> set (butlast ?L)"
      then have "x \<in> set ?L" by (rule inL)
      with kL vnot x have "x \<noteq> ?k" "x \<noteq> ?v" by auto
      then show "cc_stamp ?s' x = cc_stamp s x" by (rule st_o)
    qed
    ultimately have "sorted_wrt (\<lambda>a b. cc_stamp ?s' b < cc_stamp ?s' a) (butlast ?L)"
      by (rule sorted_stamps_cong)
    moreover have "\<forall>x\<in>set (butlast ?L). cc_stamp ?s' x < cc_stamp ?s' ?k"
    proof
      fix x assume x: "x \<in> set (butlast ?L)"
      then have "x \<in> set ?L" by (rule inL)
      then have "cc_stamp s x < cc_access_counter s" by (rule below)
      with same x show "cc_stamp ?s' x < cc_stamp ?s' ?k" by (simp add: st_k)
    qed
    ultimately have "sorted_wrt (\<lambda>a b. cc_stamp ?s' b < cc_stamp ?s' a) (take m (?k # removeAll ?k R))"
      by (simp add: L' bl')
    then have "lru_inv m (?k # removeAll ?k R) ?s'"
      unfolding lru_inv_def using ci' ms' dr keys' by (simp add: distinct_removeAll)
    with cnt show "lru_inv m (?k # removeAll ?k R) ?s' \<and>
        cc_access_counter ?s' = Suc (cc_access_counter s)" by simp
  qed
qed

lemma get_color_lru_step:
  assumes inv: "lru_inv m R s" and m: "1 \<le> m" and c: "cc_access_counter s < SIZE_MAX"
    and sp: "color_space_create nv = Some sp" and col: "cg_color_create nv r g b alpha = Some color"
  shows "lru_inv m (pack_rgb r g b # removeAll (pack_rgb r g b) R) (snd (get_color nv r g b alpha s)) \<and>
         cc_access_counter (snd (get_color nv r g b alpha s)) = Suc (cc_access_counter s)"
proof (cases "pack_rgb r g b \<in> cc_keys s")
  case True
  with get_color_lru_hit [OF inv m c] show ?thesis by simp
next
  case False
  with get_color_lru_miss [OF inv m c _ sp col] show ?thesis by simp
qed

lemma remdups_snoc: "remdups (ks @ [k]) = removeAll k (remdups ks) @ [k]"
  by (induction ks) auto

lemma recent_snoc:
  "rev (remdups (ks @ [k])) = k # removeAll k (rev (remdups ks))"
  by (simp add: remdups_snoc removeAll_filter_not_eq rev_filter)

lemma ColorCache_new_lru: "lru_inv m [] (ColorCache_new m)"
  using ColorCache_new_inv [of m] by (simp add: lru_inv_def ColorCache_new_def cc_keys_def)

lemma gets_lru:
  assumes m: "1 \<le> m" and cr: "creates_all nv cs" and n: "length cs \<le> SIZE_MAX"
  shows "lru_inv m (rev (remdups (map rgb_key cs))) (cc_run nv (gets cs) (ColorCache_new m)) \<and>
         cc_access_counter (cc_run nv (gets cs) (ColorCache_new m)) = length cs"
  using cr n
proof (induction cs rule: rev_induct)
  case Nil
  show ?case by (simp add: gets_def cc_run_def ColorCache_new_lru) (simp add: ColorCache_new_def)
next
  case (snoc c cs)
  obtain r g b where c: "c = (r, g, b)" by (cases c) auto
  from snoc.prems(1) have cr': "creates_all nv cs"
    and col: "cg_color_create nv r g b 1 \<noteq> None" and sp: "color_space_create nv \<noteq> None"
    by (simp_all add: creates_all_def c)
  then obtain color space where col': "cg_color_create nv r g b 1 = Some color"
    and sp': "color_space_create nv = Some space" by auto
  from snoc.prems(2) have n': "length cs \<le> SIZE_MAX" and lt: "length cs < SIZE_MAX" by simp_all
  let ?s = "cc_run nv (gets cs) (ColorCache_new m)"
  from snoc.IH [OF cr' n'] have inv: "lru_inv m (rev (remdups (map rgb_key cs))) ?s"
    and cnt: "cc_access_counter ?s = length cs" by simp_all
  from cnt lt have c1: "cc_access_counter ?s < SIZE_MAX" by simp
  have run: "cc_run nv (gets (cs @ [c])) (ColorCache_new m) = snd (get_color nv r g b 1 ?s)"
    by (simp add: c gets_snoc cc_run_snoc)
  from get_color_lru_step [OF inv m c1 sp' col']
  show ?case
    by (simp add: run [unfolded c] recent_snoc c rgb_key_triple cnt)
qed

lemma remdups_map_inj: "inj f \<Longrightarrow> remdups (map f xs) = map f (remdups xs)"
  by (induction xs) (auto simp add: inj_image_mem_iff)

lemma remdups_append_distinct:
  "distinct ys \<Longrightarrow> remdups (xs @ ys) = filter (\<lambda>x. x \<notin> set ys) (remdups xs) @ ys"
  by (induction xs) auto

lemma recent_of_distinct:
  assumes "distinct zs" and "length zs = Suc m"
  shows "set (take m (rev (map rgb_key zs))) = rgb_key ` (set zs - {hd zs})"
proof -
  from assms(2) obtain z zs' where zs: "zs = z # zs'" and l: "length zs' = m"
    by (cases zs) auto
  have "take m (rev (map rgb_key zs)) = rev (map rgb_key zs')"
    using l by (simp add: zs)
  moreover have "set zs - {hd zs} = set zs'" using assms(1) by (auto simp add: zs)
  ultimately show ?thesis by simp
qed

lemma reaccess_remdups:
  assumes d: "distinct (pre @ post @ [c'])" and c: "c \<in> set pre"
  shows "remdups (pre @ [c] @ post @ [c']) = removeAll c pre @ [c] @ post @ [c']"
proof -
  from d c have dy: "distinct ([c] @ post @ [c'])" by auto
  have f: "filter (\<lambda>x. x \<notin> set ([c] @ post @ [c'])) pre = removeAll c pre"
    unfolding removeAll_filter_not_eq using d by (intro filter_cong) auto
  have p: "remdups pre = pre" using d by simp
  have "remdups (pre @ ([c] @ post @ [c'])) =
      filter (\<lambda>x. x \<notin> set ([c] @ post @ [c'])) (remdups pre) @ ([c] @ post @ [c'])"
    using dy by (rule remdups_append_distinct)
  then show ?thesis by (simp only: p f)
qed

lemma removeAll_only:
  assumes "distinct pre" and "c \<in> set pre"
  shows "removeAll c pre = [] \<longleftrightarrow> pre = [c]"
proof
  assume e: "removeAll c pre = []"
  then have "set pre \<subseteq> {c}" by (metis set_removeAll Diff_eq_empty_iff list.set(1))
  with assms show "pre = [c]"
    by (cases pre) (auto, metis (no_types) list.set_intros(1) neq_Nil_conv singletonD subset_iff)
next
  assume "pre = [c]"
  then show "removeAll c pre = []" by simp
qed

lemma lru_first_evicted:
  assumes m: "1 \<le> m" and cr: "creates_all nv (ds @ [c'])" and n: "length (ds @ [c']) \<le> SIZE_MAX"
    and l: "length ds = m" and d: "distinct (ds @ [c'])"
  shows "cc_keys (cc_run nv (gets (ds @ [c'])) (ColorCache_new m)) =
           rgb_key ` (set (ds @ [c']) - {hd ds})"
proof -
  from gets_lru [OF m cr n]
  have "cc_keys (cc_run nv (gets (ds @ [c'])) (ColorCache_new m)) =
      set (take m (rev (remdups (map rgb_key (ds @ [c'])))))"
    by (simp add: lru_inv_def)
  also have "remdups (map rgb_key (ds @ [c'])) = map rgb_key (ds @ [c'])"
    using d by (simp only: remdups_map_inj [OF rgb_key_inj] distinct_remdups_id)
  also have "set (take m (rev (map rgb_key (ds @ [c'])))) =
      rgb_key ` (set (ds @ [c']) - {hd (ds @ [c'])})"
    using d l by (intro recent_of_distinct) simp_all
  also have "hd (ds @ [c']) = hd ds" using l m by (cases ds) auto
  finally show ?thesis .
qed

lemma lru_reaccess:
  assumes m: "1 \<le> m" and cr: "creates_all nv (pre @ [c] @ post @ [c'])"
    and n: "length (pre @ [c] @ post @ [c']) \<le> SIZE_MAX"
    and c: "c \<in> set pre" and l: "length (pre @ post) = m" and d: "distinct (pre @ post @ [c'])"
  shows "cc_keys (cc_run nv (gets (pre @ [c] @ post @ [c'])) (ColorCache_new m)) =
           rgb_key ` (set (pre @ post @ [c']) - {hd (removeAll c pre @ [c])})"
    and "rgb_key c \<in> cc_keys (cc_run nv (gets (pre @ [c] @ post @ [c'])) (ColorCache_new m)) \<longleftrightarrow>
           pre \<noteq> [c]"
proof -
  let ?zs = "removeAll c pre @ [c] @ post @ [c']"
  let ?keys = "cc_keys (cc_run nv (gets (pre @ [c] @ post @ [c'])) (ColorCache_new m))"
  from d have dp: "distinct pre" by simp
  have dz: "distinct ?zs" using d c by (auto simp add: distinct_removeAll)
  have "length (removeAll c pre) = length pre - 1"
    using dp c by (simp add: distinct_remove1_removeAll [symmetric] length_remove1)
  moreover have "0 < length pre" using c by (cases pre) auto
  ultimately have "Suc (length (removeAll c pre)) = length pre" by arith
  then have "length ?zs = Suc (length pre + length post)" by simp
  then have lz: "length ?zs = Suc m" using l by simp
  have sz: "set ?zs = set (pre @ post @ [c'])" using c by auto
  have hz: "hd ?zs = hd (removeAll c pre @ [c])" by (cases "removeAll c pre") simp_all
  from gets_lru [OF m cr n]
  have "?keys = set (take m (rev (remdups (map rgb_key (pre @ [c] @ post @ [c'])))))"
    by (simp add: lru_inv_def)
  also have "remdups (map rgb_key (pre @ [c] @ post @ [c'])) = map rgb_key ?zs"
    by (simp only: remdups_map_inj [OF rgb_key_inj] reaccess_remdups [OF d c])
  also have "set (take m (rev (map rgb_key ?zs))) = rgb_key ` (set ?zs - {hd ?zs})"
    using dz lz by (rule recent_of_distinct)
  finally show keys: "?keys = rgb_key ` (set (pre @ post @ [c']) - {hd (removeAll c pre @ [c])})"
    by (simp only: sz hz)
  have "rgb_key c \<in> ?keys \<longleftrightarrow> c \<noteq> hd (removeAll c pre @ [c])"
    unfolding keys using c by (auto simp add: inj_image_mem_iff [OF rgb_key_inj])
  also have "\<dots> \<longleftrightarrow> removeAll c pre \<noteq> []"
  proof (cases "removeAll c pre")
    case Nil
    then show ?thesis by simp
  next
    case (Cons x xs)
    then have "x \<in> set (removeAll c pre)" by simp
    then have "x \<noteq> c" by simp
    with Cons show ?thesis by simp
  qed
  also have "\<dots> \<longleftrightarrow> pre \<noteq> [c]" using removeAll_only [OF dp c] by simp
  finally show "rgb_key c \<in> ?keys \<longleftrightarrow> pre \<noteq> [c]" .
qed

lemma lru_last_survives:
  assumes m: "2 \<le> m" and cr: "creates_all nv (es @ [d, d'])"
    and n: "length (es @ [d, d']) \<le> SIZE_MAX"
  shows "rgb_key d \<in> cc_keys (cc_run nv (gets (es @ [d, d'])) (ColorCache_new m))"
proof -
  let ?R = "rev (remdups (map rgb_key es))"
  from m have m1: "1 \<le> m" by simp
  from m obtain n' where m': "m = Suc (Suc n')" by (cases m) (auto, metis Suc_le_D Suc_le_mono)
  have "es @ [d, d'] = (es @ [d]) @ [d']" by simp
  then have "rev (remdups (map rgb_key (es @ [d, d']))) =
      rgb_key d' # removeAll (rgb_key d') (rgb_key d # removeAll (rgb_key d) ?R)"
    by (simp only: map_append list.map recent_snoc)
  moreover from gets_lru [OF m1 cr n]
  have "cc_keys (cc_run nv (gets (es @ [d, d'])) (ColorCache_new m)) =
      set (take m (rev (remdups (map rgb_key (es @ [d, d'])))))"
    by (simp add: lru_inv_def)
  ultimately show ?thesis by (simp add: m')
qed

text \<open>
  Claim C4, as the source has it. A fresh cache of capacity \<open>m \<ge> 1\<close> serves the requests
  \<open>cs\<close>, every creation succeeding (fewer than \<open>2^64\<close> requests, so that the access counter
  has not wrapped around). Then the cache holds the \<open>m\<close> most recently requested distinct
  colours. In particular, after \<open>m + 1\<close> distinct colours \<open>ds @ [c']\<close> exactly the colour
  requested first, the least recently accessed one, is gone. If a colour \<open>c\<close> that is
  already cached is requested again, once, before the last of \<open>m + 1\<close> distinct colours is
  inserted (the requests are \<open>pre @ [c] @ post @ [c']\<close> with \<open>c\<close> in \<open>pre\<close>), its recency is
  updated: the entry evicted is the oldest of the other colours, and \<open>c\<close> stays cached, if
  the cache held another colour when \<open>c\<close> was requested again; a colour requested again
  while it was the only entry (\<open>pre = [c]\<close>) is still the least recently accessed one when
  \<open>c'\<close> arrives, and is the one evicted. For \<open>m \<ge> 2\<close> the colour of a request, new or
  cached, is never evicted by the request that follows it.
\<close>

theorem color_cache_lru_eviction:
  assumes "1 \<le> m" and "creates_all nv cs" and "length cs \<le> SIZE_MAX"
  shows "cc_keys (cc_run nv (gets cs) (ColorCache_new m)) =
           set (take m (rev (remdups (map rgb_key cs)))) \<and>
         (cs = ds @ [c'] \<and> length ds = m \<and> distinct (ds @ [c']) \<longrightarrow>
            cc_keys (cc_run nv (gets cs) (ColorCache_new m)) =
              rgb_key ` (set (ds @ [c']) - {hd ds})) \<and>
         (cs = pre @ [c] @ post @ [c'] \<and> c \<in> set pre \<and> length (pre @ post) = m \<and>
          distinct (pre @ post @ [c']) \<longrightarrow>
            cc_keys (cc_run nv (gets cs) (ColorCache_new m)) =
              rgb_key ` (set (pre @ post @ [c']) - {hd (removeAll c pre @ [c])}) \<and>
            (rgb_key c \<in> cc_keys (cc_run nv (gets cs) (ColorCache_new m)) \<longleftrightarrow> pre \<noteq> [c])) \<and>
         (2 \<le> m \<and> cs = es @ [d, d'] \<longrightarrow>
            rgb_key d \<in> cc_keys (cc_run nv (gets cs) (ColorCache_new m)))"
proof (intro conjI impI)
  from gets_lru [OF assms]
  show "cc_keys (cc_run nv (gets cs) (ColorCache_new m)) =
           set (take m (rev (remdups (map rgb_key cs))))"
    by (simp add: lru_inv_def)
next
  assume a: "cs = ds @ [c'] \<and> length ds = m \<and> distinct (ds @ [c'])"
  with assms show "cc_keys (cc_run nv (gets cs) (ColorCache_new m)) =
              rgb_key ` (set (ds @ [c']) - {hd ds})"
    using lru_first_evicted [of m nv ds c'] by simp
next
  assume a: "cs = pre @ [c] @ post @ [c'] \<and> c \<in> set pre \<and> length (pre @ post) = m \<and>
          distinct (pre @ post @ [c'])"
  with assms show "cc_keys (cc_run nv (gets cs) (ColorCache_new m)) =
              rgb_key ` (set (pre @ post @ [c']) - {hd (removeAll c pre @ [c])})"
    using lru_reaccess(1) [of m nv pre c post c'] by simp
  from a assms show "rgb_key c \<in> cc_keys (cc_run nv (gets cs) (ColorCache_new m)) \<longleftrightarrow> pre \<noteq> [c]"
    using lru_reaccess(2) [of m nv pre c post c'] by simp
next
  assume a: "2 \<le> m \<and> cs = es @ [d, d']"
  with assms show "rgb_key d \<in> cc_keys (cc_run nv (gets cs) (ColorCache_new m))"
    using lru_last_survives [of m nv es d d'] by simp
qed

theorem color_cache_lru_eviction_witness:
  "(1::nat) \<le> 2 \<and>
   creates_all sample_natives [(1, 2, 3), (4, 5, 6), (7, 8, 9)] \<and>
   length [(1, 2, 3), (4, 5, 6), (7, 8, 9) :: 8 word \<times> 8 word \<times> 8 word] \<le> SIZE_MAX \<and>
   distinct ([(1, 2, 3), (4, 5, 6)] @ [(7, 8, 9) :: 8 word \<times> 8 word \<times> 8 word]) \<and>
   cc_keys (cc_run sample_natives (gets [(1, 2, 3), (4, 5, 6), (7, 8, 9)]) (ColorCache_new 2)) =
     {rgb_key (4, 5, 6), rgb_key (7, 8, 9)} \<and>
   creates_all sample_natives [(1, 2, 3), (4, 5, 6), (1, 2, 3), (7, 8, 9)] \<and>
   length [(1, 2, 3), (4, 5, 6), (1, 2, 3), (7, 8, 9) :: 8 word \<times> 8 word \<times> 8 word] \<le> SIZE_MAX \<and>
   (1, 2, 3) \<in> set [(1, 2, 3), (4, 5, 6) :: 8 word \<times> 8 word \<times> 8 word] \<and> (2::nat) \<le> 2 \<and>
   cc_keys (cc_run sample_natives (gets [(1, 2, 3), (4, 5, 6), (1, 2, 3), (7, 8, 9)])
      (ColorCache_new 2)) = {rgb_key (1, 2, 3), rgb_key (7, 8, 9)} \<and>
   rgb_key (1, 2, 3) \<in>
     cc_keys (cc_run sample_natives (gets [(1, 2, 3), (4, 5, 6), (1, 2, 3), (7, 8, 9)])
      (ColorCache_new 2))"
proof -
  let ?A = "(1, 2, 3) :: 8 word \<times> 8 word \<times> 8 word"
  let ?B = "(4, 5, 6) :: 8 word \<times> 8 word \<times> 8 word"
  let ?C = "(7, 8, 9) :: 8 word \<times> 8 word \<times> 8 word"
  have h1: "(1::nat) \<le> 2" "(2::nat) \<le> 2" by simp_all
  have h2: "creates_all sample_natives [?A, ?B, ?C]" "creates_all sample_natives [?A, ?B, ?A, ?C]"
    by (rule sample_creates)+
  have h3: "length [?A, ?B, ?C] \<le> SIZE_MAX" "length [?A, ?B, ?A, ?C] \<le> SIZE_MAX"
    by (simp_all add: SIZE_MAX_def)
  have h4: "distinct ([?A, ?B] @ [?C])" by simp
  have h5: "?A \<in> set [?A, ?B]" by simp
  have s1: "set ([?A, ?B] @ [?C]) - {hd [?A, ?B]} = {?B, ?C}" by auto
  have s2: "set ([?A, ?B] @ [] @ [?C]) - {hd (removeAll ?A [?A, ?B] @ [?A])} = {?A, ?C}" by auto
  note t1 = color_cache_lru_eviction [OF h1(1) h2(1) h3(1), where ds = "[?A, ?B]" and c' = ?C]
  have e1: "[?A, ?B, ?C] = [?A, ?B] @ [?C]" "length [?A, ?B] = 2" by simp_all
  from t1 [THEN conjunct2, THEN conjunct1] e1 h4
  have k1: "cc_keys (cc_run sample_natives (gets [?A, ?B, ?C]) (ColorCache_new 2)) =
      rgb_key ` (set ([?A, ?B] @ [?C]) - {hd [?A, ?B]})" by blast
  note t2 = color_cache_lru_eviction [OF h1(1) h2(2) h3(2),
      where pre = "[?A, ?B]" and c = ?A and post = "[]" and c' = ?C
        and es = "[?A, ?B]" and d = ?A and d' = ?C]
  have e2: "[?A, ?B, ?A, ?C] = [?A, ?B] @ [?A] @ [] @ [?C]" by simp
  have e3: "[?A, ?B, ?A, ?C] = [?A, ?B] @ [?A, ?C]" by simp
  have h6: "length ([?A, ?B] @ []) = 2" "distinct ([?A, ?B] @ [] @ [?C])" by simp_all
  from t2 [THEN conjunct2, THEN conjunct2, THEN conjunct1] e2 h5 h6
  have k2: "cc_keys (cc_run sample_natives (gets [?A, ?B, ?A, ?C]) (ColorCache_new 2)) =
      rgb_key ` (set ([?A, ?B] @ [] @ [?C]) - {hd (removeAll ?A [?A, ?B] @ [?A])})" by blast
  from t2 [THEN conjunct2, THEN conjunct2, THEN conjunct2] e3 h1(2)
  have k3: "rgb_key ?A \<in> cc_keys (cc_run sample_natives (gets [?A, ?B, ?A, ?C]) (ColorCache_new 2))"
    by blast
  have k1': "cc_keys (cc_run sample_natives (gets [?A, ?B, ?C]) (ColorCache_new 2)) =
      {rgb_key ?B, rgb_key ?C}" unfolding k1 s1 by simp
  have k2': "cc_keys (cc_run sample_natives (gets [?A, ?B, ?A, ?C]) (ColorCache_new 2)) =
      {rgb_key ?A, rgb_key ?C}" unfolding k2 s2 by simp
  show ?thesis using h1 h2 h3 h4 h5 k1' k2' k3 by simp
qed

text \<open>
  Claim C4 as worded, for every re-access before the last insertion, does not describe the
  source. A cache of capacity 2 receives \<open>(1, 2, 3)\<close>, then \<open>(1, 2, 3)\<close> again, which is
  cached by then, then \<open>(4, 5, 6)\<close> and \<open>(7, 8, 9)\<close>. The third insertion evicts
  \<open>(1, 2, 3)\<close>, the colour that was requested again: its last access is older than that of
  \<open>(4, 5, 6)\<close>.
\<close>

theorem color_cache_early_reaccess_counterexample:
  "cc_keys (cc_run sample_natives (gets [(1, 2, 3)]) (ColorCache_new 2)) = {rgb_key (1, 2, 3)} \<and>
   cc_keys (cc_run sample_natives (gets [(1, 2, 3), (1, 2, 3), (4, 5, 6)]) (ColorCache_new 2)) =
     {rgb_key (1, 2, 3), rgb_key (4, 5, 6)} \<and>
   cc_keys (cc_run sample_natives (gets [(1, 2, 3), (1, 2, 3), (4, 5, 6), (7, 8, 9)])
      (ColorCache_new 2)) = {rgb_key (4, 5, 6), rgb_key (7, 8, 9)} \<and>
   rgb_key (1, 2, 3) \<notin>
     cc_keys (cc_run sample_natives (gets [(1, 2, 3), (1, 2, 3), (4, 5, 6), (7, 8, 9)])
      (ColorCache_new 2))"
  by (simp add: cc_run_def gets_def get_color_def Let_def pack_ex ColorCache_new_def rgb_key_def
      sample_natives_def size_t_incr_def SIZE_MAX_def evict_lru_def cc_keys_def)

section \<open>Properties of the attribute dictionary cache\<close>

lemma int_mask_31: "(2147483647::int) = mask 31"
  by (simp add: mask_eq_exp_minus_1)

lemma bit_63_numeral: "bit (9223372036854775808 :: 64 word) n \<longleftrightarrow> n = 63"
proof -
  have "(9223372036854775808 :: 64 word) = 2 ^ 63" by simp
  then show ?thesis by (simp only: bit_exp_iff) auto
qed

lemma bit_63_numeral_int: "bit (9223372036854775808 :: int) n \<longleftrightarrow> n = 63"
proof -
  have "(9223372036854775808 :: int) = 2 ^ 63" by simp
  then show ?thesis by (simp only: bit_exp_iff) auto
qed

lemma bit_63_numeral_nat: "bit (9223372036854775808 :: nat) n \<longleftrightarrow> n = 63"
proof -
  have "(9223372036854775808 :: nat) = 2 ^ 63" by simp
  then show ?thesis by (simp only: bit_exp_iff) auto
qed

lemma make_key_color: "ucast (make_key fa c u) = c"
  by (rule bit_word_eqI) (auto simp add: make_key_def Let_def bit_simps bit_63_numeral bit_63_numeral_int bit_63_numeral_nat dest: bit_imp_le_length)

lemma make_key_underline: "bit (make_key fa c u) 63 \<longleftrightarrow> u"
  by (auto simp add: make_key_def Let_def bit_simps int_mask_31 bit_63_numeral bit_63_numeral_int bit_63_numeral_nat dest: bit_imp_le_length)

lemma make_key_attrs: "take_bit 31 (drop_bit 32 (make_key fa c u)) = word_of_int (take_bit 31 fa)"
  by (rule bit_word_eqI)
     (auto simp add: make_key_def Let_def bit_simps int_mask_31 bit_63_numeral bit_63_numeral_int bit_63_numeral_nat dest: bit_imp_le_length)

lemma word64_of_int_31_inj:
  assumes "(word_of_int (take_bit 31 a) :: 64 word) = word_of_int (take_bit 31 b)"
  shows "take_bit 31 (a::int) = take_bit 31 b"
proof -
  have "take_bit 64 (take_bit 31 a) = take_bit 64 (take_bit 31 b)"
    using assms by (simp add: word_of_int_eq_iff)
  then show ?thesis by simp
qed

lemma make_key_inj:
  assumes "make_key fa c u = make_key fa' c' u'"
  shows "take_bit 31 fa = take_bit 31 fa' \<and> c = c' \<and> u = u'"
proof -
  from assms have "ucast (make_key fa c u) = (ucast (make_key fa' c' u') :: 32 word)" by simp
  then have c: "c = c'" by (simp add: make_key_color)
  from assms have "bit (make_key fa c u) 63 = bit (make_key fa' c' u') 63" by simp
  then have u: "u = u'" by (simp add: make_key_underline)
  from assms have "take_bit 31 (drop_bit 32 (make_key fa c u)) =
      take_bit 31 (drop_bit 32 (make_key fa' c' u'))" by simp
  then have "take_bit 31 fa = take_bit 31 fa'"
    by (simp only: make_key_attrs) (rule word64_of_int_31_inj)
  with c u show ?thesis by simp
qed

lemma make_key_inj_31:
  assumes "fits_31_bits (fa, c, u)" "fits_31_bits (fa', c', u')"
    and "make_key fa c u = make_key fa' c' u'"
  shows "(fa, c, u) = (fa', c', u')"
proof -
  from assms(1,2) have "take_bit 31 fa = fa" "take_bit 31 fa' = fa'"
    by (simp_all add: fits_31_bits_def take_bit_int_eq_self)
  with make_key_inj [OF assms(3)] show ?thesis by simp
qed

lemma make_key_sign_bit: "make_key (- 2147483648) c u = make_key 0 c u"
proof -
  have "(- 2147483648 :: int) AND mask 31 = 0"
    by (simp add: take_bit_eq_mask [symmetric] take_bit_eq_mod)
  then show ?thesis by (simp add: make_key_def int_mask_31)
qed

lemma get_attributes_hit:
  assumes "adc_cache s (make_key fa rgb ul) = Some d"
  shows "get_attributes nv fa rgb ul s = (Inr d, s\<lparr>adc_hits := size_t_incr (adc_hits s)\<rparr>)"
  using assms by (simp add: get_attributes_def Let_def)

lemma get_attributes_miss:
  assumes "adc_cache s (make_key fa rgb ul) = None"
  shows "adc_misses (snd (get_attributes nv fa rgb ul s)) = size_t_incr (adc_misses s) \<and>
         adc_hits (snd (get_attributes nv fa rgb ul s)) = adc_hits s \<and>
         ((\<exists>e. fst (get_attributes nv fa rgb ul s) = Inl e) \<and>
            adc_cache (snd (get_attributes nv fa rgb ul s)) = adc_cache s \<or>
          (\<exists>d. fst (get_attributes nv fa rgb ul s) = Inr d \<and>
               adc_cache (snd (get_attributes nv fa rgb ul s)) = (adc_cache s)(make_key fa rgb ul \<mapsto> d)))"
  using assms
  by (auto simp add: get_attributes_def Let_def split: prod.splits option.splits sum.splits)

lemma get_attributes_cached:
  assumes "get_attributes nv fa rgb ul s = (Inr d, s1)"
  shows "adc_cache s1 (make_key fa rgb ul) = Some d"
proof (cases "adc_cache s (make_key fa rgb ul)")
  case None
  from get_attributes_miss [OF None, of nv] assms show ?thesis
    using None by auto
next
  case (Some d')
  from get_attributes_hit [OF Some, of nv] assms show ?thesis using Some by auto
qed

lemma get_attributes_keeps:
  assumes "adc_cache s k = Some d"
  shows "adc_cache (snd (get_attributes nv fa rgb ul s)) k = Some d"
proof (cases "adc_cache s (make_key fa rgb ul)")
  case None
  with assms have "k \<noteq> make_key fa rgb ul" by auto
  with get_attributes_miss [OF None, of nv] assms show ?thesis by auto
next
  case (Some d')
  from get_attributes_hit [OF Some, of nv] assms show ?thesis by simp
qed

lemma get_attributes_dom:
  "dom (adc_cache (snd (get_attributes nv fa rgb ul s))) \<subseteq> insert (make_key fa rgb ul) (dom (adc_cache s))"
proof (cases "adc_cache s (make_key fa rgb ul)")
  case None
  from get_attributes_miss [OF None, of nv] show ?thesis by auto
next
  case (Some d')
  from get_attributes_hit [OF Some, of nv] show ?thesis by auto
qed

lemma adc_run_keeps:
  "adc_cache s k = Some d \<Longrightarrow> adc_cache (adc_run nv cs s) k = Some d"
proof (induction cs arbitrary: s)
  case Nil
  then show ?case by (simp add: adc_run_def)
next
  case (Cons c cs)
  obtain fa rgb ul where c: "c = (fa, rgb, ul)" by (cases c) auto
  from Cons.prems have "adc_cache (adc_apply nv s c) k = Some d"
    by (simp add: adc_apply_def c get_attributes_keeps)
  from Cons.IH [OF this] show ?case by (simp add: adc_run_def)
qed

lemma adc_run_dom:
  "dom (adc_cache (adc_run nv cs s)) \<subseteq> dom (adc_cache s) \<union> call_key ` set cs"
proof (induction cs arbitrary: s)
  case Nil
  then show ?case by (simp add: adc_run_def)
next
  case (Cons c cs)
  obtain fa rgb ul where c: "c = (fa, rgb, ul)" by (cases c) auto
  have "dom (adc_cache (adc_apply nv s c)) \<subseteq> insert (call_key c) (dom (adc_cache s))"
    using get_attributes_dom [of nv fa rgb ul s] by (simp add: adc_apply_def c call_key_def)
  moreover have "adc_run nv (c # cs) s = adc_run nv cs (adc_apply nv s c)" by (simp add: adc_run_def)
  ultimately show ?case using Cons.IH [of "adc_apply nv s c"] by (simp only: set_simps image_insert) blast
qed

text \<open>
  Claim C5, for font attributes that fit the key. If a call of \<^verbatim>\<open>get_attributes\<close> returns an
  attribute dictionary, then after any further \<^verbatim>\<open>get_attributes\<close> calls a call with the same
  triple returns that same dictionary from the cache and increments \<^verbatim>\<open>hits\<close> (modulo the
  width of \<^verbatim>\<open>size_t\<close>), leaving the rest of the state alone. And on caches used since their
  construction only with triples whose font attributes lie in \<open>0 .. 2^31 - 1\<close>, a call with
  such a triple that differs from every triple seen before increments \<^verbatim>\<open>misses\<close> and leaves
  \<^verbatim>\<open>hits\<close> alone: within the 31 bits of the key no two triples share a key.
\<close>

theorem attribute_cache_hits_and_misses:
  "(fst (get_attributes nv fa rgb ul s) = Inr d \<longrightarrow>
      get_attributes nv fa rgb ul (adc_run nv cs (snd (get_attributes nv fa rgb ul s))) =
        (Inr d, (adc_run nv cs (snd (get_attributes nv fa rgb ul s)))
                  \<lparr>adc_hits := size_t_incr (adc_hits (adc_run nv cs (snd (get_attributes nv fa rgb ul s))))\<rparr>)) \<and>
   (list_all fits_31_bits (c # seen) \<and> c \<notin> set seen \<longrightarrow>
      adc_misses (adc_apply nv (adc_run nv seen (fresh_caches base_font)) c) =
        size_t_incr (adc_misses (adc_run nv seen (fresh_caches base_font))) \<and>
      adc_hits (adc_apply nv (adc_run nv seen (fresh_caches base_font)) c) =
        adc_hits (adc_run nv seen (fresh_caches base_font)))"
proof (rule conjI; rule impI)
  assume "fst (get_attributes nv fa rgb ul s) = Inr d"
  then have "get_attributes nv fa rgb ul s = (Inr d, snd (get_attributes nv fa rgb ul s))"
    by (metis prod.collapse)
  then have "adc_cache (snd (get_attributes nv fa rgb ul s)) (make_key fa rgb ul) = Some d"
    by (rule get_attributes_cached)
  then have "adc_cache (adc_run nv cs (snd (get_attributes nv fa rgb ul s))) (make_key fa rgb ul) = Some d"
    by (rule adc_run_keeps)
  then show "get_attributes nv fa rgb ul (adc_run nv cs (snd (get_attributes nv fa rgb ul s))) =
        (Inr d, (adc_run nv cs (snd (get_attributes nv fa rgb ul s)))
                  \<lparr>adc_hits := size_t_incr (adc_hits (adc_run nv cs (snd (get_attributes nv fa rgb ul s))))\<rparr>)"
    by (rule get_attributes_hit)
next
  assume a: "list_all fits_31_bits (c # seen) \<and> c \<notin> set seen"
  obtain fa' rgb' ul' where c: "c = (fa', rgb', ul')" by (cases c) auto
  let ?s = "adc_run nv seen (fresh_caches base_font)"
  have "make_key fa' rgb' ul' \<notin> call_key ` set seen"
  proof
    assume "make_key fa' rgb' ul' \<in> call_key ` set seen"
    then obtain c2 where c2: "c2 \<in> set seen" "call_key c2 = make_key fa' rgb' ul'" by auto
    obtain fa2 rgb2 ul2 where c2': "c2 = (fa2, rgb2, ul2)" by (cases c2) auto
    from a c2(1) have f2: "fits_31_bits (fa2, rgb2, ul2)" by (simp add: list_all_iff c2')
    from a have f1: "fits_31_bits (fa', rgb', ul')" by (simp add: c)
    from c2(2) have "make_key fa' rgb' ul' = make_key fa2 rgb2 ul2" by (simp add: call_key_def c2')
    from make_key_inj_31 [OF f1 f2 this] have "c = c2" by (simp add: c c2')
    with a c2(1) show False by simp
  qed
  moreover have "dom (adc_cache ?s) \<subseteq> call_key ` set seen"
    using adc_run_dom [of nv seen "fresh_caches base_font"]
    by (simp add: fresh_caches_def AttributeDictCache_new_def)
  ultimately have none: "adc_cache ?s (make_key fa' rgb' ul') = None" by auto
  from get_attributes_miss [OF none, of nv]
  show "adc_misses (adc_apply nv ?s c) = size_t_incr (adc_misses ?s) \<and>
        adc_hits (adc_apply nv ?s c) = adc_hits ?s"
    by (simp add: adc_apply_def c)
qed

lemma make_key_ex:
  "make_key 0 16777215 False = 16777215"
  "make_key 1 16711680 True = 9223372041166454784"
  by (simp_all add: make_key_def)

lemma rgb_ex:
  "(ucast (drop_bit 16 (16777215 :: 32 word) AND 255) :: 8 word) = 255"
  "(ucast (drop_bit 8 (16777215 :: 32 word) AND 255) :: 8 word) = 255"
  "(ucast ((16777215 :: 32 word) AND 255) :: 8 word) = 255"
  "(ucast (drop_bit 16 (16711680 :: 32 word) AND 255) :: 8 word) = 255"
  "(ucast (drop_bit 8 (16711680 :: 32 word) AND 255) :: 8 word) = 0"
  "(ucast ((16711680 :: 32 word) AND 255) :: 8 word) = 0"
  by simp_all

lemma pack_ex2: "pack_rgb 255 255 255 = 16777215" "pack_rgb 255 0 0 = 16711680"
  by (simp_all add: pack_rgb_def)

lemma first_call:
  "get_attributes sample_natives 0 16777215 False (fresh_caches 7) =
     (Inr \<lparr>ad_handle = 16778322, ad_font = 7, ad_color = 16777315, ad_underline = False\<rparr>,
      \<lparr>adc_font_cache = \<lparr>fc_base_font = 7, fc_cache = [0 \<mapsto> 7]\<rparr>,
       adc_color_cache = \<lparr>cc_cache = [(16777215, 16777315)], cc_max_size = 256,
                           cc_access_order = [(16777215, 0)], cc_access_counter = 1\<rparr>,
       adc_cache = [16777215 \<mapsto> \<lparr>ad_handle = 16778322, ad_font = 7, ad_color = 16777315,
                                  ad_underline = False\<rparr>],
       adc_hits = 0, adc_misses = 1\<rparr>)"
  by (simp add: get_attributes_def Let_def make_key_ex fresh_caches_def AttributeDictCache_new_def
      FontCache_new_def ColorCache_new_def get_font_def rgb_ex get_color_def pack_ex2
      sample_natives_def size_t_incr_def SIZE_MAX_def)

lemma first_run:
  "adc_run sample_natives [(0, 16777215, False)] (fresh_caches 7) =
     \<lparr>adc_font_cache = \<lparr>fc_base_font = 7, fc_cache = [0 \<mapsto> 7]\<rparr>,
       adc_color_cache = \<lparr>cc_cache = [(16777215, 16777315)], cc_max_size = 256,
                           cc_access_order = [(16777215, 0)], cc_access_counter = 1\<rparr>,
       adc_cache = [16777215 \<mapsto> \<lparr>ad_handle = 16778322, ad_font = 7, ad_color = 16777315,
                                  ad_underline = False\<rparr>],
       adc_hits = 0, adc_misses = 1\<rparr>"
  by (simp add: adc_run_def adc_apply_def first_call)

text \<open>
  Claim C5 as worded fails for font attributes outside the 31 bits the key keeps:
  \<^verbatim>\<open>make_key\<close> masks the attributes with \<^verbatim>\<open>0x7FFFFFFF\<close>, so the triples with attributes \<open>0\<close>
  and \<open>-2147483648\<close> share a key. The second of the two calls is a hit that returns the
  dictionary of the first; \<^verbatim>\<open>misses\<close> does not change.
\<close>

theorem attribute_cache_sign_bit_counterexample:
  "(- 2147483648, 16777215, False) \<notin> set [(0, 16777215, False) :: attr_call] \<and>
   adc_misses (adc_apply sample_natives (adc_run sample_natives [(0, 16777215, False)] (fresh_caches 7))
      (- 2147483648, 16777215, False)) =
     adc_misses (adc_run sample_natives [(0, 16777215, False)] (fresh_caches 7)) \<and>
   adc_hits (adc_apply sample_natives (adc_run sample_natives [(0, 16777215, False)] (fresh_caches 7))
      (- 2147483648, 16777215, False)) = 1 \<and>
   fst (get_attributes sample_natives (- 2147483648) 16777215 False
      (adc_run sample_natives [(0, 16777215, False)] (fresh_caches 7))) =
     fst (get_attributes sample_natives 0 16777215 False (fresh_caches 7))"
proof -
  let ?s = "adc_run sample_natives [(0, 16777215, False)] (fresh_caches 7)"
  let ?d = "\<lparr>ad_handle = 16778322, ad_font = 7, ad_color = 16777315, ad_underline = False\<rparr>"
  have "adc_cache ?s (make_key (- 2147483648) 16777215 False) = Some ?d"
    by (simp add: make_key_sign_bit make_key_ex first_run)
  from get_attributes_hit [OF this, of sample_natives]
  have "get_attributes sample_natives (- 2147483648) 16777215 False ?s =
      (Inr ?d, ?s\<lparr>adc_hits := size_t_incr (adc_hits ?s)\<rparr>)" .
  then show ?thesis
    by (simp add: adc_apply_def first_call) (simp add: first_run size_t_incr_def SIZE_MAX_def)
qed

theorem attribute_cache_hits_and_misses_witness:
  "fst (get_attributes sample_natives 0 16777215 False (fresh_caches 7)) =
     Inr \<lparr>ad_handle = 16778322, ad_font = 7, ad_color = 16777315, ad_underline = False\<rparr> \<and>
   fst (get_attributes sample_natives 0 16777215 False
      (adc_run sample_natives [(1, 16711680, True)]
         (snd (get_attributes sample_natives 0 16777215 False (fresh_caches 7))))) =
     Inr \<lparr>ad_handle = 16778322, ad_font = 7, ad_color = 16777315, ad_underline = False\<rparr> \<and>
   list_all fits_31_bits [(1, 16711680, True), (0, 16777215, False)] \<and>
   (1, 16711680, True) \<notin> set [(0, 16777215, False) :: attr_call] \<and>
   adc_misses (adc_apply sample_natives (adc_run sample_natives [(0, 16777215, False)] (fresh_caches 7))
      (1, 16711680, True)) = 2"
proof -
  let ?d = "\<lparr>ad_handle = 16778322, ad_font = 7, ad_color = 16777315, ad_underline = False\<rparr>"
  let ?c = "(1, 16711680, True) :: attr_call"
  let ?seen = "[(0, 16777215, False)] :: attr_call list"
  have h1: "fst (get_attributes sample_natives 0 16777215 False (fresh_caches 7)) = Inr ?d"
    by (simp add: first_call)
  have h2: "list_all fits_31_bits (?c # ?seen) \<and> ?c \<notin> set ?seen"
    by (simp add: fits_31_bits_def)
  note t = attribute_cache_hits_and_misses [of sample_natives 0 16777215 False "fresh_caches 7" ?d
      "[(1, 16711680, True)]" ?c ?seen 7]
  from t h1 have a: "fst (get_attributes sample_natives 0 16777215 False
      (adc_run sample_natives [(1, 16711680, True)]
         (snd (get_attributes sample_natives 0 16777215 False (fresh_caches 7))))) = Inr ?d"
    by simp
  from t h2 have "adc_misses (adc_apply sample_natives (adc_run sample_natives ?seen (fresh_caches 7)) ?c) =
      size_t_incr (adc_misses (adc_run sample_natives ?seen (fresh_caches 7)))" by blast
  then have b: "adc_misses (adc_apply sample_natives (adc_run sample_natives ?seen (fresh_caches 7)) ?c) = 2"
    by (simp add: first_run size_t_incr_def SIZE_MAX_def)
  show ?thesis using h1 a h2 b by simp
qed

section \<open>The passes stay inside the grid\<close>

declare bg_cols.simps [simp del] bg_rows.simps [simp del]
  char_cols.simps [simp del] char_rows.simps [simp del]

lemma grid_at_in_bounds:
  assumes "grid_shape_ok grid rows cols" "0 \<le> row" "row < rows" "0 \<le> col" "col < cols"
  shows "\<exists>cell. grid_at grid row col = Some cell"
proof -
  from assms have r: "nat row < length grid" by (auto simp add: grid_shape_ok_def)
  then have "grid ! nat row \<in> set grid" by simp
  with assms(1) have "int (length (grid ! nat row)) = cols"
    by (simp add: grid_shape_ok_def list_all_iff)
  with assms r show ?thesis by (auto simp add: grid_at_def)
qed

lemma bg_cols_in_bounds:
  assumes "frame_in_bounds f" "0 \<le> row" "row < fr_rows f" "0 \<le> col"
  shows "\<exists>b'. bg_cols f row col b = Inr b'"
  using assms
proof (induction f row col b rule: bg_cols.induct)
  case (1 f row col b)
  show ?case
  proof (cases "col < end_col (fr_dirty_cells f)")
    case True
    with "1.prems" have "col < fr_cols f" by (simp add: frame_in_bounds_def)
    with "1.prems" obtain cell where cell: "grid_at (fr_grid f) row col = Some cell"
      using grid_at_in_bounds [of "fr_grid f" "fr_rows f" "fr_cols f" row col]
      by (auto simp add: frame_in_bounds_def)
    from "1.prems" have "0 \<le> col + 1" by simp
    from "1.IH" [OF True cell "1.prems"(1-3) this]
    show ?thesis using True cell by (subst bg_cols.simps) simp
  next
    case False
    then show ?thesis by (subst bg_cols.simps) simp
  qed
qed

lemma bg_rows_in_bounds:
  assumes "frame_in_bounds f" "0 \<le> row"
  shows "\<exists>b'. bg_rows f row b = Inr b'"
  using assms
proof (induction f row b rule: bg_rows.induct)
  case (1 f row b)
  show ?case
  proof (cases "row < end_row (fr_dirty_cells f)")
    case True
    with "1.prems" have r: "row < fr_rows f" by (simp add: frame_in_bounds_def)
    from "1.prems" have c: "0 \<le> start_col (fr_dirty_cells f)" by (simp add: frame_in_bounds_def)
    from bg_cols_in_bounds [OF "1.prems"(1,2) r c] obtain b' where
      b': "bg_cols f row (start_col (fr_dirty_cells f)) b = Inr b'" by blast
    from "1.prems" have "0 \<le> row + 1" by simp
    from "1.IH" [OF True b' "1.prems"(1) this]
    show ?thesis using True b' by (subst bg_rows.simps) simp
  next
    case False
    then show ?thesis by (subst bg_rows.simps) simp
  qed
qed

lemma draw_character_batch_error:
  "draw_character_batch nv batch s = Inl e \<Longrightarrow> is_cache_error e"
  by (auto simp add: draw_character_batch_def is_cache_error_def split: prod.splits sum.splits)

lemma finish_batch_error: "finish_batch nv s = Inl e \<Longrightarrow> is_cache_error e"
  by (auto simp add: finish_batch_def split: option.splits sum.splits
      dest: draw_character_batch_error)

lemma finish_batch_skip_error:
  "map_sum id (\<lambda>s'. (s', k)) (finish_batch nv s) = Inl e \<Longrightarrow> is_cache_error e"
  by (cases "finish_batch nv s") (auto dest: finish_batch_error)

lemma combine_selector_in_bounds:
  assumes "frame_in_bounds f" "0 \<le> row" "row < fr_rows f" "0 \<le> col"
  shows "\<exists>cv. combine_selector f row col cell = Inr cv"
proof (cases "col + 1 < end_col (fr_dirty_cells f) \<and> col + 1 < fr_cols f")
  case True
  with assms obtain next_cell where "grid_at (fr_grid f) row (col + 1) = Some next_cell"
    using grid_at_in_bounds [of "fr_grid f" "fr_rows f" "fr_cols f" row "col + 1"]
    by (auto simp add: frame_in_bounds_def)
  with True show ?thesis by (auto simp add: combine_selector_def)
next
  case False
  then show ?thesis by (auto simp add: combine_selector_def)
qed

lemma character_cell_error:
  assumes "frame_in_bounds f" "0 \<le> row" "row < fr_rows f" "0 \<le> col"
    and "character_cell nv f row col cell s = Inl e"
  shows "is_cache_error e"
proof -
  from combine_selector_in_bounds [OF assms(1-4), of cell] obtain cc vs where
    cv: "combine_selector f row col cell = Inr (cc, vs)" by force
  from assms(5) show ?thesis
    unfolding character_cell_def Let_def cv
    by (auto simp add: is_cache_error_def split: if_splits option.splits prod.splits sum.splits
        dest!: finish_batch_skip_error finish_batch_error)
qed

lemma char_cols_error:
  assumes "frame_in_bounds f" "0 \<le> row" "row < fr_rows f" "0 \<le> col"
    and "char_cols nv f row col s = Inl e"
  shows "is_cache_error e"
  using assms
proof (induction nv f row col s rule: char_cols.induct)
  case (1 nv f row col s)
  show ?case
  proof (cases "col < end_col (fr_dirty_cells f)")
    case True
    with "1.prems" have "col < fr_cols f" by (simp add: frame_in_bounds_def)
    with "1.prems" obtain cell where cell: "grid_at (fr_grid f) row col = Some cell"
      using grid_at_in_bounds [of "fr_grid f" "fr_rows f" "fr_cols f" row col]
      by (auto simp add: frame_in_bounds_def)
    show ?thesis
    proof (cases "character_cell nv f row col cell s")
      case (Inl e')
      with "1.prems"(5) True cell have "e = e'" by (subst (asm) char_cols.simps) simp
      with character_cell_error [OF "1.prems"(1-4) Inl] show ?thesis by simp
    next
      case (Inr p)
      obtain s' k where p: "p = (s', k)" by (cases p) auto
      from "1.prems"(5) True cell Inr p
      have rec: "char_cols nv f row (col + int k + 1) s' = Inl e"
        by (subst (asm) char_cols.simps) simp
      from "1.prems" have "0 \<le> col + int k + 1" by simp
      from "1.IH" [OF True cell Inr p [symmetric] "1.prems"(1-3) this rec]
      show ?thesis .
    qed
  next
    case False
    with "1.prems"(5) show ?thesis by (subst (asm) char_cols.simps) simp
  qed
qed

lemma char_rows_error:
  assumes "frame_in_bounds f" "0 \<le> row" and "char_rows nv f row s = Inl e"
  shows "is_cache_error e"
  using assms
proof (induction nv f row s rule: char_rows.induct)
  case (1 nv f row s)
  show ?case
  proof (cases "row < end_row (fr_dirty_cells f)")
    case True
    with "1.prems" have r: "row < fr_rows f" by (simp add: frame_in_bounds_def)
    from "1.prems" have c: "0 \<le> start_col (fr_dirty_cells f)" by (simp add: frame_in_bounds_def)
    show ?thesis
    proof (cases "char_cols nv f row (start_col (fr_dirty_cells f)) s")
      case (Inl e')
      with "1.prems"(3) True have "e = e'" by (subst (asm) char_rows.simps) simp
      with char_cols_error [OF "1.prems"(1,2) r c Inl] show ?thesis by simp
    next
      case (Inr s')
      note cols = this
      show ?thesis
      proof (cases "finish_batch nv s'")
        case (Inl e')
        with "1.prems"(3) True cols have "e = e'" by (subst (asm) char_rows.simps) simp
        with finish_batch_error [OF Inl] show ?thesis by simp
      next
        case (Inr s'')
        from "1.prems"(3) True cols Inr have rec: "char_rows nv f (row + 1) s'' = Inl e"
          by (subst (asm) char_rows.simps) simp
        from "1.prems" have "0 \<le> row + 1" by simp
        from "1.IH" [OF True cols Inr "1.prems"(1) this rec] show ?thesis .
      qed
    qed
  next
    case False
    with "1.prems"(3) show ?thesis by (subst (asm) char_rows.simps) simp
  qed
qed

lemma render_characters_error:
  assumes "frame_in_bounds f" and "render_characters nv f cache = Inl e"
  shows "is_cache_error e"
proof -
  let ?s0 = "\<lparr>rs_current_batch = None, rs_drawn = [], rs_attr_cache = cache\<rparr>"
  from assms(1) have r: "0 \<le> start_row (fr_dirty_cells f)" by (simp add: frame_in_bounds_def)
  show ?thesis
  proof (cases "char_rows nv f (start_row (fr_dirty_cells f)) ?s0")
    case (Inl e')
    with assms(2) have "e = e'" by (simp add: render_characters_def)
    with char_rows_error [OF assms(1) r Inl] show ?thesis by simp
  next
    case (Inr s)
    with assms(2) have "finish_batch nv s = Inl e" by (simp add: render_characters_def)
    then show ?thesis by (rule finish_batch_error)
  qed
qed

lemma render_backgrounds_in_bounds:
  assumes "frame_in_bounds f"
  shows "\<exists>b'. render_backgrounds f b = Inr b'"
proof -
  from assms have "0 \<le> start_row (fr_dirty_cells f)" by (simp add: frame_in_bounds_def)
  from bg_rows_in_bounds [OF assms this] show ?thesis by (simp add: render_backgrounds_def)
qed

text \<open>
  Claim C9. For a grid of \<open>rows \<ge> 0\<close> by \<open>cols \<ge> 0\<close> cells (as \<^verbatim>\<open>render_frame\<close> passes it on,
  with the shape \<^verbatim>\<open>parse_grid\<close> checked) and for every dirty rectangle, cell size and
  offset (negative sizes, rectangles arbitrarily far away, and whatever the platform
  returns for a conversion that overflows) the cell region of \<^verbatim>\<open>calculate_dirty_cells\<close>
  satisfies \<open>0 \<le> start_row \<le> end_row \<le> rows\<close>, \<open>0 \<le> start_col \<le> cols\<close> and
  \<open>0 \<le> end_col \<le> cols\<close>. Consequently neither pass indexes the grid out of range: the
  background pass always returns, and the character pass can only fail with an error of
  the attribute cache.
\<close>

theorem dirty_region_in_bounds:
  assumes "0 \<le> fr_rows f" and "0 \<le> fr_cols f"
    and "grid_shape_ok (fr_grid f) (fr_rows f) (fr_cols f)"
    and "fr_dirty_cells f =
          calculate_dirty_cells ub r (fr_char_width f) (fr_char_height f) (fr_rows f) (fr_cols f)
            (fr_offset_x f) (fr_offset_y f)"
  shows "0 \<le> start_row (fr_dirty_cells f) \<and>
         start_row (fr_dirty_cells f) \<le> end_row (fr_dirty_cells f) \<and>
         end_row (fr_dirty_cells f) \<le> fr_rows f \<and>
         0 \<le> start_col (fr_dirty_cells f) \<and> start_col (fr_dirty_cells f) \<le> fr_cols f \<and>
         0 \<le> end_col (fr_dirty_cells f) \<and> end_col (fr_dirty_cells f) \<le> fr_cols f \<and>
         (\<exists>b'. render_backgrounds f b = Inr b') \<and>
         (\<forall>row col. render_characters nv f cache \<noteq> Inl (Grid_index_out_of_range row col))"
proof -
  note bounds = calculate_dirty_cells_bounds [OF assms(1,2), of ub r "fr_char_width f"
      "fr_char_height f" "fr_offset_x f" "fr_offset_y f", folded assms(4)]
  with assms(3) have fb: "frame_in_bounds f" by (simp add: frame_in_bounds_def)
  have "\<exists>b'. render_backgrounds f b = Inr b'" using fb by (rule render_backgrounds_in_bounds)
  moreover have "\<forall>row col. render_characters nv f cache \<noteq> Inl (Grid_index_out_of_range row col)"
  proof (intro allI notI)
    fix row col assume "render_characters nv f cache = Inl (Grid_index_out_of_range row col)"
    from render_characters_error [OF fb this] show False by (simp add: is_cache_error_def)
  qed
  ultimately show ?thesis using bounds by blast
qed

lemma sample_rect_quotients:
  "left_quotient \<lparr>origin_x = 0, origin_y = 0, size_width = 24, size_height = 16\<rparr> 8 0 = Some 0"
  "right_quotient \<lparr>origin_x = 0, origin_y = 0, size_width = 24, size_height = 16\<rparr> 8 0 = Some 3"
  "top_quotient \<lparr>origin_x = 0, origin_y = 0, size_width = 24, size_height = 16\<rparr> 16 0 = Some 1"
  "bottom_quotient \<lparr>origin_x = 0, origin_y = 0, size_width = 24, size_height = 16\<rparr> 16 0 = Some 0"
  by (simp_all add: left_quotient_def right_quotient_def top_quotient_def bottom_quotient_def
      cg_sub_def cg_add_def cg_div_def cg_round_zero cg_round_one cg_round_numeral)

lemma sample_dirty_cells:
  "fr_dirty_cells (sample_frame row) = \<lparr>start_row = 0, end_row = 1, start_col = 0, end_col = 3\<rparr>"
  unfolding sample_frame_def frame.simps
  by (subst calculate_dirty_cells_defined [OF sample_rect_quotients])
    (simp_all add: fits_int_def int_min_def int_max_def clamp_to_def)

theorem dirty_region_in_bounds_witness:
  "0 \<le> fr_rows (sample_frame sample_row) \<and> 0 \<le> fr_cols (sample_frame sample_row) \<and>
   grid_shape_ok (fr_grid (sample_frame sample_row)) (fr_rows (sample_frame sample_row))
     (fr_cols (sample_frame sample_row)) \<and>
   fr_dirty_cells (sample_frame sample_row) =
     \<lparr>start_row = 0, end_row = 1, start_col = 0, end_col = 3\<rparr> \<and>
   (\<exists>b'. render_backgrounds (sample_frame sample_row) RectangleBatcher_new = Inr b') \<and>
   (\<forall>row col. render_characters sample_natives (sample_frame sample_row) (fresh_caches 7) \<noteq>
      Inl (Grid_index_out_of_range row col))"
proof -
  let ?f = "sample_frame sample_row"
  have h1: "0 \<le> fr_rows ?f" and h2: "0 \<le> fr_cols ?f" by (simp_all add: sample_frame_def)
  have h3: "grid_shape_ok (fr_grid ?f) (fr_rows ?f) (fr_cols ?f)"
    by (simp add: sample_frame_def grid_shape_ok_def sample_row_def)
  have h4: "fr_dirty_cells ?f =
      calculate_dirty_cells (\<lambda>q. 0) \<lparr>origin_x = 0, origin_y = 0, size_width = 24, size_height = 16\<rparr>
        (fr_char_width ?f) (fr_char_height ?f) (fr_rows ?f) (fr_cols ?f) (fr_offset_x ?f) (fr_offset_y ?f)"
    by (simp add: sample_frame_def)
  from dirty_region_in_bounds [OF h1 h2 h3 h4, of RectangleBatcher_new sample_natives "fresh_caches 7"]
  show ?thesis using h1 h2 h3 sample_dirty_cells [of sample_row] by blast
qed

section \<open>Cells the passes skip\<close>

lemma finish_batch_result:
  assumes "finish_batch nv s = Inr s'"
  shows "rs_current_batch s' = None \<and>
         rs_drawn s' = rs_drawn s @ (case rs_current_batch s of None \<Rightarrow> [] | Some batch \<Rightarrow> [batch])"
  using assms
  by (auto simp add: finish_batch_def draw_character_batch_def
      split: option.splits sum.splits prod.splits)

lemma finish_batch_no_open_run: "rs_current_batch s = None \<Longrightarrow> finish_batch nv s = Inr s"
  by (simp add: finish_batch_def)

lemma character_cell_missing_pair:
  assumes miss: "fr_color_pairs f (cell_color_pair cell) = None"
    and cv: "combine_selector f row col cell = Inr cv"
  shows "character_cell nv f row col cell s = map_sum id (\<lambda>s'. (s', 0)) (finish_batch nv s)"
proof -
  obtain cc vs where "cv = (cc, vs)" by (cases cv) auto
  with cv miss show ?thesis by (simp add: character_cell_def Let_def)
qed

lemma background_cell_missing_pair:
  "fr_color_pairs f (cell_color_pair cell) = None \<Longrightarrow> background_cell f row col cell b = b"
  by (simp add: background_cell_def Let_def)

text \<open>
  Claim C7, as the source has it. Let a cell of the dirty region name a colour pair that
  the table of the frame does not have. The background pass adds nothing for the cell and
  leaves the batcher as it is (an open batch stays open; the batcher closes it at the next
  cell that is not adjacent, or at the end of the row) and goes on with the next column. The
  character pass closes the open run, handing it to \<^verbatim>\<open>draw_character_batch\<close>, adds nothing for
  the cell and goes on with the next column. Neither pass reports an error for the cell:
  the step of the character pass can only fail when drawing the run that was open fails in
  the attribute cache, and it cannot fail when no run is open.
\<close>

theorem unknown_color_pair_skipped:
  assumes miss: "fr_color_pairs f (cell_color_pair cell) = None"
    and fb: "frame_in_bounds f" and row: "0 \<le> row" "row < fr_rows f" and col: "0 \<le> col"
    and here: "col < end_col (fr_dirty_cells f)" "grid_at (fr_grid f) row col = Some cell"
  shows "background_cell f row col cell b = b \<and>
         bg_cols f row col b = bg_cols f row (col + 1) b \<and>
         character_cell nv f row col cell s = map_sum id (\<lambda>s'. (s', 0)) (finish_batch nv s) \<and>
         char_cols nv f row col s =
           (case finish_batch nv s of Inl e \<Rightarrow> Inl e | Inr s' \<Rightarrow> char_cols nv f row (col + 1) s') \<and>
         (\<forall>s'. finish_batch nv s = Inr s' \<longrightarrow>
            rs_current_batch s' = None \<and>
            rs_drawn s' = rs_drawn s @ (case rs_current_batch s of None \<Rightarrow> [] | Some batch \<Rightarrow> [batch])) \<and>
         (rs_current_batch s = None \<longrightarrow> finish_batch nv s = Inr s) \<and>
         (\<forall>e. finish_batch nv s = Inl e \<longrightarrow> is_cache_error e)"
proof -
  have bg: "background_cell f row col cell b = b" using miss by (rule background_cell_missing_pair)
  have bgc: "bg_cols f row col b = bg_cols f row (col + 1) b"
    using here bg by (subst bg_cols.simps) simp
  from combine_selector_in_bounds [OF fb row col, of cell] obtain cv where
    cv: "combine_selector f row col cell = Inr cv" by blast
  have ch: "character_cell nv f row col cell s = map_sum id (\<lambda>s'. (s', 0)) (finish_batch nv s)"
    using miss cv by (rule character_cell_missing_pair)
  have chc: "char_cols nv f row col s =
           (case finish_batch nv s of Inl e \<Rightarrow> Inl e | Inr s' \<Rightarrow> char_cols nv f row (col + 1) s')"
    using here ch by (subst char_cols.simps) (simp split: sum.splits)
  show ?thesis
    using bg bgc ch chc finish_batch_result [of nv s] finish_batch_no_open_run [of s nv]
      finish_batch_error [of nv s]
    by blast
qed

lemma sample_frame_in_bounds: "length row = 3 \<Longrightarrow> frame_in_bounds (sample_frame row)"
  by (simp add: frame_in_bounds_def sample_dirty_cells) (simp add: sample_frame_def grid_shape_ok_def)

lemma sample_frame_fields:
  "fr_grid (sample_frame row) = [row]" "fr_color_pairs (sample_frame row) = sample_pairs"
  "fr_char_width (sample_frame row) = 8" "fr_char_height (sample_frame row) = 16"
  "fr_rows (sample_frame row) = 1" "fr_cols (sample_frame row) = 3"
  "fr_offset_x (sample_frame row) = 0" "fr_offset_y (sample_frame row) = 0"
  by (simp_all add: sample_frame_def)

lemma bg_unknown:
  "render_backgrounds (sample_frame unknown_pair_row) RectangleBatcher_new =
     Inr \<lparr>batches = [\<lparr>rb_x = 0, rb_y = 0, rb_width = 8, rb_height = 16, rb_bg_rgb = 0\<rparr>,
                      \<lparr>rb_x = 16, rb_y = 0, rb_width = 8, rb_height = 16, rb_bg_rgb = 0\<rparr>],
          current_batch = None\<rparr>"
  by (simp add: render_backgrounds_def bg_rows.simps bg_cols.simps sample_dirty_cells
      sample_frame_fields grid_at_def unknown_pair_row_def sample_cell_def background_cell_def
      Let_def is_variation_selector_def sample_pairs_def ttk_to_cg_y_def add_cell_def
      eps_001f_def finish_row_def RectangleBatcher_new_def)

lemma bg_wide_unknown:
  "render_backgrounds (sample_frame wide_unknown_pair_row) RectangleBatcher_new =
     Inr \<lparr>batches = [\<lparr>rb_x = 0, rb_y = 0, rb_width = 24, rb_height = 16, rb_bg_rgb = 0\<rparr>],
          current_batch = None\<rparr>"
  by (simp add: render_backgrounds_def bg_rows.simps bg_cols.simps sample_dirty_cells
      sample_frame_fields grid_at_def wide_unknown_pair_row_def sample_cell_def background_cell_def
      Let_def is_variation_selector_def sample_pairs_def ttk_to_cg_y_def add_cell_def
      eps_001f_def finish_row_def RectangleBatcher_new_def)

theorem unknown_color_pair_skipped_witness:
  "fr_color_pairs (sample_frame unknown_pair_row) (cell_color_pair (sample_cell 0x78 5 0)) = None \<and>
   frame_in_bounds (sample_frame unknown_pair_row) \<and>
   (0::int) \<le> 0 \<and> 0 < fr_rows (sample_frame unknown_pair_row) \<and> (0::int) \<le> 1 \<and>
   1 < end_col (fr_dirty_cells (sample_frame unknown_pair_row)) \<and>
   grid_at (fr_grid (sample_frame unknown_pair_row)) 0 1 = Some (sample_cell 0x78 5 0) \<and>
   background_cell (sample_frame unknown_pair_row) 0 1 (sample_cell 0x78 5 0) RectangleBatcher_new =
     RectangleBatcher_new \<and>
   character_cell sample_natives (sample_frame unknown_pair_row) 0 1 (sample_cell 0x78 5 0)
     (initial_char_state (fresh_caches 7)) = Inr (initial_char_state (fresh_caches 7), 0) \<and>
   render_backgrounds (sample_frame unknown_pair_row) RectangleBatcher_new =
     Inr \<lparr>batches = [\<lparr>rb_x = 0, rb_y = 0, rb_width = 8, rb_height = 16, rb_bg_rgb = 0\<rparr>,
                      \<lparr>rb_x = 16, rb_y = 0, rb_width = 8, rb_height = 16, rb_bg_rgb = 0\<rparr>],
          current_batch = None\<rparr>"
proof -
  let ?f = "sample_frame unknown_pair_row"
  let ?cell = "sample_cell 0x78 5 0"
  let ?s = "initial_char_state (fresh_caches 7)"
  have h1: "fr_color_pairs ?f (cell_color_pair ?cell) = None"
    by (simp add: sample_frame_fields sample_pairs_def sample_cell_def)
  have h2: "frame_in_bounds ?f" by (rule sample_frame_in_bounds) (simp add: unknown_pair_row_def)
  have h3: "(0::int) \<le> 0" "0 < fr_rows ?f" "(0::int) \<le> 1" by (simp_all add: sample_frame_fields)
  have h4: "1 < end_col (fr_dirty_cells ?f)" by (simp add: sample_dirty_cells)
  have h5: "grid_at (fr_grid ?f) 0 1 = Some ?cell"
    by (simp add: sample_frame_fields grid_at_def unknown_pair_row_def)
  note t = unknown_color_pair_skipped [OF h1 h2 h3 h4 h5, of RectangleBatcher_new sample_natives ?s]
  have open_none: "rs_current_batch ?s = None" by (simp add: initial_char_state_def)
  from t open_none have fin: "finish_batch sample_natives ?s = Inr ?s" by blast
  from t have "character_cell sample_natives ?f 0 1 ?cell ?s =
      map_sum id (\<lambda>s'. (s', 0)) (finish_batch sample_natives ?s)" by blast
  then have ch: "character_cell sample_natives ?f 0 1 ?cell ?s = Inr (?s, 0)" by (simp add: fin)
  from t have bg: "background_cell ?f 0 1 ?cell RectangleBatcher_new = RectangleBatcher_new" by blast
  show ?thesis using h1 h2 h3 h4 h5 bg ch bg_unknown by blast
qed

text \<open>
  Claim C7 as worded has the background pass flush the open batch at such a cell. It does
  not: after a wide \<open>A\<close>, a cell in the unknown pair 5 and a \<open>B\<close>, the batch opened by \<open>A\<close> is
  still open after the skipped cell, and \<open>B\<close> extends it, so that the pass yields one
  rectangle over all three columns.
\<close>

theorem background_pass_keeps_batch_open_counterexample:
  "fr_color_pairs (sample_frame wide_unknown_pair_row) (cell_color_pair (sample_cell 0x78 5 0)) = None \<and>
   current_batch (background_cell (sample_frame wide_unknown_pair_row) 0 1 (sample_cell 0x78 5 0)
      \<lparr>batches = [], current_batch = Some \<lparr>rb_x = 0, rb_y = 0, rb_width = 16, rb_height = 16, rb_bg_rgb = 0\<rparr>\<rparr>)
     = Some \<lparr>rb_x = 0, rb_y = 0, rb_width = 16, rb_height = 16, rb_bg_rgb = 0\<rparr> \<and>
   render_backgrounds (sample_frame wide_unknown_pair_row) RectangleBatcher_new =
     Inr \<lparr>batches = [\<lparr>rb_x = 0, rb_y = 0, rb_width = 24, rb_height = 16, rb_bg_rgb = 0\<rparr>],
          current_batch = None\<rparr>"
proof -
  have "fr_color_pairs (sample_frame wide_unknown_pair_row) (cell_color_pair (sample_cell 0x78 5 0)) = None"
    by (simp add: sample_frame_fields sample_pairs_def sample_cell_def)
  then show ?thesis by (simp add: background_cell_missing_pair bg_wide_unknown)
qed

lemma combine_selector_unit:
  "combine_selector f row col cell = Inr (unit, vs) \<Longrightarrow> \<exists>rest. unit = cell_character cell @ rest"
  by (auto simp add: combine_selector_def split: if_splits option.splits)

lemma character_cell_plain_space:
  assumes "cell_character cell = [0x20]" "cell_attributes cell AND 2 = 0"
  shows "character_cell nv f row col cell s = map_sum id (\<lambda>s'. (s', 0)) (finish_batch nv s)"
  using assms by (simp add: character_cell_def Let_def)

lemma character_cell_rendered:
  assumes ne: "cell_character cell \<noteq> []"
    and ns: "\<not> (cell_character cell = [0x20] \<and> cell_attributes cell AND 2 = 0)"
    and pair: "fr_color_pairs f (cell_color_pair cell) = Some colors"
    and cv: "combine_selector f row col cell = Inr (unit, vs)"
    and attrs: "fst (get_attributes nv (cell_attributes cell AND 1)
                  (if cell_attributes cell AND 4 \<noteq> 0 then cp_bg_rgb colors else cp_fg_rgb colors)
                  False (rs_attr_cache s)) = Inr attrs"
    and font: "get_font_index_for_character nv unit (ad_font attrs) (cell_attributes cell AND 1) \<noteq> - 2"
    and res: "character_cell nv f row col cell s = Inr (s', k)"
  shows "\<exists>batch pre. rs_current_batch s' = Some batch \<and> cb_text batch = pre @ unit \<and>
           cb_underline batch = (cell_attributes cell AND 2 \<noteq> 0)"
proof -
  obtain cache' where ga: "get_attributes nv (cell_attributes cell AND 1)
                  (if cell_attributes cell AND 4 \<noteq> 0 then cp_bg_rgb colors else cp_fg_rgb colors)
                  False (rs_attr_cache s) = (Inr attrs, cache')"
    using attrs by (metis prod.collapse)
  from cv ne have une: "unit \<noteq> []" by (auto dest: combine_selector_unit)
  from res show ?thesis
    unfolding character_cell_def Let_def
    using ne ns pair cv ga font une
    by (auto split: if_splits option.splits sum.splits)
qed

text \<open>
  Claim C6, as the source has it. A cell whose text is a single space and whose underline
  bit is clear is excluded from the character runs and closes the open run. A space cell
  whose underline bit is set is not skipped as a space: it goes through the same steps as
  any other character, and when its colour pair is known, its attribute dictionary is
  obtained and a font resolves it, the run that is open after the cell ends with the space
  (and the variation selector combined with it, if any) and is underlined.
\<close>

theorem space_cell_rule:
  assumes "cell_character cell = [0x20]"
  shows "(cell_attributes cell AND 2 = 0 \<longrightarrow>
            character_cell nv f row col cell s = map_sum id (\<lambda>s'. (s', 0)) (finish_batch nv s) \<and>
            (\<forall>s'. finish_batch nv s = Inr s' \<longrightarrow>
               rs_current_batch s' = None \<and>
               rs_drawn s' = rs_drawn s @ (case rs_current_batch s of None \<Rightarrow> [] | Some batch \<Rightarrow> [batch]))) \<and>
         (cell_attributes cell AND 2 \<noteq> 0 \<and>
          fr_color_pairs f (cell_color_pair cell) = Some colors \<and>
          combine_selector f row col cell = Inr (unit, vs) \<and>
          fst (get_attributes nv (cell_attributes cell AND 1)
                 (if cell_attributes cell AND 4 \<noteq> 0 then cp_bg_rgb colors else cp_fg_rgb colors)
                 False (rs_attr_cache s)) = Inr attrs \<and>
          get_font_index_for_character nv unit (ad_font attrs) (cell_attributes cell AND 1) \<noteq> - 2 \<and>
          character_cell nv f row col cell s = Inr (s', k) \<longrightarrow>
            (\<exists>batch pre. rs_current_batch s' = Some batch \<and> cb_text batch = pre @ unit \<and>
               hd unit = 0x20 \<and> cb_underline batch))"
proof (rule conjI; rule impI)
  assume "cell_attributes cell AND 2 = 0"
  with assms have "character_cell nv f row col cell s = map_sum id (\<lambda>s'. (s', 0)) (finish_batch nv s)"
    by (rule character_cell_plain_space)
  then show "character_cell nv f row col cell s = map_sum id (\<lambda>s'. (s', 0)) (finish_batch nv s) \<and>
            (\<forall>s'. finish_batch nv s = Inr s' \<longrightarrow>
               rs_current_batch s' = None \<and>
               rs_drawn s' = rs_drawn s @ (case rs_current_batch s of None \<Rightarrow> [] | Some batch \<Rightarrow> [batch]))"
    using finish_batch_result [of nv s] by blast
next
  assume a: "cell_attributes cell AND 2 \<noteq> 0 \<and>
          fr_color_pairs f (cell_color_pair cell) = Some colors \<and>
          combine_selector f row col cell = Inr (unit, vs) \<and>
          fst (get_attributes nv (cell_attributes cell AND 1)
                 (if cell_attributes cell AND 4 \<noteq> 0 then cp_bg_rgb colors else cp_fg_rgb colors)
                 False (rs_attr_cache s)) = Inr attrs \<and>
          get_font_index_for_character nv unit (ad_font attrs) (cell_attributes cell AND 1) \<noteq> - 2 \<and>
          character_cell nv f row col cell s = Inr (s', k)"
  then have ul: "cell_attributes cell AND 2 \<noteq> 0"
    and pair: "fr_color_pairs f (cell_color_pair cell) = Some colors"
    and cv: "combine_selector f row col cell = Inr (unit, vs)"
    and attrs: "fst (get_attributes nv (cell_attributes cell AND 1)
                 (if cell_attributes cell AND 4 \<noteq> 0 then cp_bg_rgb colors else cp_fg_rgb colors)
                 False (rs_attr_cache s)) = Inr attrs"
    and font: "get_font_index_for_character nv unit (ad_font attrs) (cell_attributes cell AND 1) \<noteq> - 2"
    and res: "character_cell nv f row col cell s = Inr (s', k)"
    by simp_all
  from assms have ne: "cell_character cell \<noteq> []" by simp
  from ul have ns: "\<not> (cell_character cell = [0x20] \<and> cell_attributes cell AND 2 = 0)" by simp
  from character_cell_rendered [OF ne ns pair cv attrs font res] ul
  obtain batch pre where b: "rs_current_batch s' = Some batch" "cb_text batch = pre @ unit"
    "cb_underline batch" by auto
  from combine_selector_unit [OF cv] assms have "hd unit = 0x20" by auto
  with b show "\<exists>batch pre. rs_current_batch s' = Some batch \<and> cb_text batch = pre @ unit \<and>
               hd unit = 0x20 \<and> cb_underline batch" by blast
qed

lemma space_after_A:
  "character_cell sample_natives (sample_frame sample_row) 0 1 (sample_cell 0x20 0 2) state_after_A =
     Inr (\<lparr>rs_current_batch = Some (open_run_A\<lparr>cb_text := [0x41, 0x20], cb_is_wide := [False, False]\<rparr>),
           rs_drawn = [],
           rs_attr_cache = snd (get_attributes sample_natives 0 16777215 False (fresh_caches 7))\<rparr>, 0)"
  by (simp add: character_cell_def Let_def sample_cell_def combine_selector_def sample_dirty_cells
      sample_frame_fields grid_at_def sample_row_def is_variation_selector_def sample_pairs_def
      state_after_A_def first_call get_font_index_for_character_def ttk_to_cg_y_def
      open_run_A_def expected_x_def eps_001f_def)
    (simp add: sample_natives_def)

lemma make_key_ex3: "make_key 0 16777215 True = 9223372036871553023"
  by (simp add: make_key_def)

lemma underlined_call:
  "fst (get_attributes sample_natives 0 16777215 True (fresh_caches 7)) =
     Inr \<lparr>ad_handle = 16778322, ad_font = 7, ad_color = 16777315, ad_underline = True\<rparr>"
  by (simp add: get_attributes_def Let_def make_key_ex3 fresh_caches_def AttributeDictCache_new_def
      FontCache_new_def ColorCache_new_def get_font_def rgb_ex get_color_def pack_ex2
      sample_natives_def size_t_incr_def SIZE_MAX_def)

lemma finish_after_A:
  "finish_batch sample_natives state_after_A =
     Inr \<lparr>rs_current_batch = None, rs_drawn = [open_run_A],
          rs_attr_cache = snd (get_attributes sample_natives 0 16777215 True (fresh_caches 7))\<rparr>"
proof -
  obtain c where "get_attributes sample_natives 0 16777215 True (fresh_caches 7) =
      (Inr \<lparr>ad_handle = 16778322, ad_font = 7, ad_color = 16777315, ad_underline = True\<rparr>, c)"
    using underlined_call by (metis prod.collapse)
  then show ?thesis
    by (simp add: finish_batch_def state_after_A_def draw_character_batch_def open_run_A_def)
qed

text \<open>
  Claim C6 as worded ("excluded if and only if the underline bit is not set") fails for
  an underlined space whose colour pair is unknown: the cell is excluded and the open run
  \<open>A\<close> is closed, although the underline bit is set.
\<close>

theorem underlined_space_unknown_pair_counterexample:
  "cell_character (sample_cell 0x20 5 2) = [0x20] \<and> cell_attributes (sample_cell 0x20 5 2) AND 2 \<noteq> 0 \<and>
   (\<exists>s'. character_cell sample_natives (sample_frame unknown_pair_space_row) 0 1
            (sample_cell 0x20 5 2) state_after_A = Inr (s', 0) \<and>
         rs_current_batch s' = None \<and> rs_drawn s' = [open_run_A])"
proof -
  let ?f = "sample_frame unknown_pair_space_row"
  let ?cell = "sample_cell 0x20 5 2"
  have miss: "fr_color_pairs ?f (cell_color_pair ?cell) = None"
    by (simp add: sample_frame_fields sample_pairs_def sample_cell_def)
  have fb: "frame_in_bounds ?f" by (rule sample_frame_in_bounds) (simp add: unknown_pair_space_row_def)
  from combine_selector_in_bounds [OF fb, of 0 1 ?cell] obtain cv where
    cv: "combine_selector ?f 0 1 ?cell = Inr cv" by (auto simp add: sample_frame_fields)
  have "character_cell sample_natives ?f 0 1 ?cell state_after_A =
      map_sum id (\<lambda>s'. (s', 0)) (finish_batch sample_natives state_after_A)"
    using miss cv by (rule character_cell_missing_pair)
  then have "character_cell sample_natives ?f 0 1 ?cell state_after_A =
      Inr (\<lparr>rs_current_batch = None, rs_drawn = [open_run_A],
          rs_attr_cache = snd (get_attributes sample_natives 0 16777215 True (fresh_caches 7))\<rparr>, 0)"
    by (simp add: finish_after_A)
  then show ?thesis by (simp add: sample_cell_def)
qed

theorem space_cell_rule_witness:
  "cell_character (sample_cell 0x20 0 2) = [0x20] \<and> cell_attributes (sample_cell 0x20 0 2) AND 2 \<noteq> 0 \<and>
   fr_color_pairs (sample_frame sample_row) (cell_color_pair (sample_cell 0x20 0 2)) =
     Some \<lparr>cp_fg_rgb = 16777215, cp_bg_rgb = 0\<rparr> \<and>
   combine_selector (sample_frame sample_row) 0 1 (sample_cell 0x20 0 2) = Inr ([0x20], False) \<and>
   get_font_index_for_character sample_natives [0x20] 7 0 \<noteq> - 2 \<and>
   (\<exists>s' batch pre.
      character_cell sample_natives (sample_frame sample_row) 0 1 (sample_cell 0x20 0 2) state_after_A =
        Inr (s', 0) \<and>
      rs_current_batch s' = Some batch \<and> cb_text batch = pre @ [0x20] \<and> cb_underline batch) \<and>
   cell_character (sample_cell 0x20 0 0) = [0x20] \<and> cell_attributes (sample_cell 0x20 0 0) AND 2 = 0 \<and>
   character_cell sample_natives (sample_frame sample_row) 0 1 (sample_cell 0x20 0 0) state_after_A =
     map_sum id (\<lambda>s'. (s', 0)) (finish_batch sample_natives state_after_A)"
proof -
  let ?f = "sample_frame sample_row"
  let ?cell = "sample_cell 0x20 0 2"
  let ?plain = "sample_cell 0x20 0 0"
  let ?colors = "\<lparr>cp_fg_rgb = 16777215, cp_bg_rgb = 0\<rparr>"
  let ?d = "\<lparr>ad_handle = 16778322, ad_font = 7, ad_color = 16777315, ad_underline = False\<rparr>"
  let ?s' = "\<lparr>rs_current_batch = Some (open_run_A\<lparr>cb_text := [0x41, 0x20], cb_is_wide := [False, False]\<rparr>),
           rs_drawn = [],
           rs_attr_cache = snd (get_attributes sample_natives 0 16777215 False (fresh_caches 7))\<rparr>"
  have h0: "cell_character ?cell = [0x20]" by (simp add: sample_cell_def)
  have h1: "cell_attributes ?cell AND 2 \<noteq> 0" by (simp add: sample_cell_def)
  have h2: "fr_color_pairs ?f (cell_color_pair ?cell) = Some ?colors"
    by (simp add: sample_frame_fields sample_pairs_def sample_cell_def)
  have h3: "combine_selector ?f 0 1 ?cell = Inr ([0x20], False)"
    by (simp add: combine_selector_def sample_dirty_cells sample_frame_fields grid_at_def
        sample_row_def sample_cell_def is_variation_selector_def)
  have h4: "fst (get_attributes sample_natives (cell_attributes ?cell AND 1)
                 (if cell_attributes ?cell AND 4 \<noteq> 0 then cp_bg_rgb ?colors else cp_fg_rgb ?colors)
                 False (rs_attr_cache state_after_A)) = Inr ?d"
    by (simp add: sample_cell_def state_after_A_def first_call)
  have h5: "get_font_index_for_character sample_natives [0x20] 7 0 \<noteq> - 2"
    by (simp add: get_font_index_for_character_def sample_natives_def)
  then have h5': "get_font_index_for_character sample_natives [0x20] (ad_font ?d)
      (cell_attributes ?cell AND 1) \<noteq> - 2" by (simp add: sample_cell_def)
  have h6: "character_cell sample_natives ?f 0 1 ?cell state_after_A = Inr (?s', 0)"
    by (rule space_after_A)
  from space_cell_rule [OF h0, of sample_natives ?f 0 1 state_after_A ?colors "[0x20]" False ?d ?s' 0]
    h1 h2 h3 h4 h5' h6
  obtain batch pre where b: "rs_current_batch ?s' = Some batch" "cb_text batch = pre @ [0x20]"
    "cb_underline batch" by blast
  have p0: "cell_character ?plain = [0x20]" by (simp add: sample_cell_def)
  have p1: "cell_attributes ?plain AND 2 = 0" by (simp add: sample_cell_def)
  from space_cell_rule [OF p0, of sample_natives ?f 0 1 state_after_A] p1
  have p2: "character_cell sample_natives ?f 0 1 ?plain state_after_A =
     map_sum id (\<lambda>s'. (s', 0)) (finish_batch sample_natives state_after_A)" by blast
  show ?thesis using h0 h1 h2 h3 h5 h6 b p0 p1 p2 by blast
qed

section \<open>Validation of a frame\<close>





























lemma sample_validate:
  "context \<noteq> 0 \<Longrightarrow> validate_frame (sample_args context red) =
     Inr \<lparr>origin_x = 0, origin_y = 0, size_width = 24, size_height = 16\<rparr>"
  by (simp add: validate_frame_def sample_args_def is_number_def py_pairs_def)

lemma sample_parse_grid:
  "parse_grid (ra_grid (sample_args context red)) 1 3 = Inr [sample_row]"
  by (simp add: sample_args_def parse_grid_def parse_row_def parse_cell_def py_cell_def
      cell_text_utf16_def is_surrogate_def utf16_units_def wrap_int_def sample_row_def
      sample_cell_def)

lemma sample_parse_pairs:
  "parse_color_pairs (ra_color_pairs (sample_args context 255)) = Inr sample_pairs"
  by (simp add: sample_args_def parse_color_pairs_def py_pairs_def parse_color_pair_def
      extract_rgb_def wrap_int_def pack_rgb_def sample_pairs_def)


lemma bg_sample:
  "render_backgrounds (sample_frame sample_row) RectangleBatcher_new =
     Inr \<lparr>batches = [\<lparr>rb_x = 0, rb_y = 0, rb_width = 24, rb_height = 16, rb_bg_rgb = 0\<rparr>],
          current_batch = None\<rparr>"
  by (simp add: render_backgrounds_def bg_rows.simps bg_cols.simps sample_dirty_cells
      sample_frame_fields grid_at_def sample_row_def sample_cell_def background_cell_def
      Let_def is_variation_selector_def sample_pairs_def ttk_to_cg_y_def add_cell_def
      eps_001f_def finish_row_def RectangleBatcher_new_def)

lemma make_key_ex4: "make_key 0 16777215 False = 16777215" "make_key 0 16777215 True = 9223372036871553023"
  by (simp_all add: make_key_def)

lemma chars_sample:
  "map_sum id rs_drawn (render_characters sample_natives (sample_frame sample_row) (fresh_caches 7)) =
     Inr [\<lparr>cb_text = [0x41, 0x20, 0x42], cb_is_wide = [False, False, False],
           cb_font_attributes = 0, cb_fg_rgb = 16777215, cb_underline = True,
           cb_x = 0, cb_y = 0, cb_font_index = - 1\<rparr>]"
  by (simp add: render_characters_def char_rows.simps char_cols.simps sample_dirty_cells
      sample_frame_fields grid_at_def sample_row_def sample_cell_def character_cell_def
      combine_selector_def Let_def is_variation_selector_def sample_pairs_def ttk_to_cg_y_def
      eps_001f_def finish_batch_def draw_character_batch_def expected_x_def
      get_font_index_for_character_def get_attributes_def make_key_ex4 fresh_caches_def
      AttributeDictCache_new_def FontCache_new_def ColorCache_new_def get_font_def rgb_ex
      get_color_def pack_ex2 sample_natives_def size_t_incr_def SIZE_MAX_def)

lemma sample_frame_built:
  "\<lparr>fr_grid = [sample_row], fr_color_pairs = sample_pairs,
    fr_dirty_cells = calculate_dirty_cells (\<lambda>q. 0)
       \<lparr>origin_x = 0, origin_y = 0, size_width = 24, size_height = 16\<rparr> 8 16 1 3 0 0,
    fr_char_width = 8, fr_char_height = 16, fr_rows = 1, fr_cols = 3,
    fr_offset_x = 0, fr_offset_y = 0\<rparr> = sample_frame sample_row"
  by (simp add: sample_frame_def)

lemma sample_args_fields:
  "ra_context_ptr (sample_args context red) = context"
  "ra_char_width (sample_args context red) = 8" "ra_char_height (sample_args context red) = 16"
  "ra_rows (sample_args context red) = 1" "ra_cols (sample_args context red) = 3"
  "ra_offset_x (sample_args context red) = 0" "ra_offset_y (sample_args context red) = 0"
  by (simp_all add: sample_args_def)

lemma sample_rendered:
  "render_frame sample_natives (\<lambda>q. 0) (Some (fresh_caches 7)) (sample_args 4096 255) =
     Rendered [\<lparr>rb_x = 0, rb_y = 0, rb_width = 24, rb_height = 16, rb_bg_rgb = 0\<rparr>]
       [\<lparr>cb_text = [0x41, 0x20, 0x42], cb_is_wide = [False, False, False],
         cb_font_attributes = 0, cb_fg_rgb = 16777215, cb_underline = True,
         cb_x = 0, cb_y = 0, cb_font_index = - 1\<rparr>]"
proof -
  have v: "validate_frame (sample_args 4096 255) =
      Inr \<lparr>origin_x = 0, origin_y = 0, size_width = 24, size_height = 16\<rparr>"
    by (rule sample_validate) simp
  from chars_sample obtain s where
    s: "render_characters sample_natives (sample_frame sample_row) (fresh_caches 7) = Inr s"
    and d: "rs_drawn s = [\<lparr>cb_text = [0x41, 0x20, 0x42], cb_is_wide = [False, False, False],
         cb_font_attributes = 0, cb_fg_rgb = 16777215, cb_underline = True,
         cb_x = 0, cb_y = 0, cb_font_index = - 1\<rparr>]"
    by (cases "render_characters sample_natives (sample_frame sample_row) (fresh_caches 7)") auto
  show ?thesis
    unfolding render_frame_def v sample_args_fields sample_parse_grid sample_parse_pairs
    by (simp add: Let_def sample_frame_built bg_sample s d get_batches_def finish_row_def)
qed



section \<open>Further properties of the batcher and of a sample frame\<close>

text \<open>
  Closing of batches (\<open>RectangleBatcher::add_cell\<close> and \<open>finish_row\<close>). A cell that differs from
  the open batch in colour, or does not start at its right edge, or lies on another row, closes
  the open batch (it is appended to the finished batches) and starts a new batch that is exactly
  the cell; \<open>finish_row\<close> closes the open batch, if any, and leaves none open.
\<close>

theorem batcher_closes_batches:
  "(current_batch b = Some batch \<and>
    (rb_bg_rgb batch \<noteq> bg \<or> eps_001f \<le> \<bar>rb_x batch + rb_width batch - x\<bar> \<or>
     eps_001f \<le> \<bar>rb_y batch - y\<bar>) \<longrightarrow>
      add_cell x y w h bg b =
        \<lparr>batches = batches b @ [batch],
         current_batch = Some \<lparr>rb_x = x, rb_y = y, rb_width = w, rb_height = h, rb_bg_rgb = bg\<rparr>\<rparr>) \<and>
   current_batch (finish_row b) = None \<and>
   batches (finish_row b) =
     batches b @ (case current_batch b of None \<Rightarrow> [] | Some open_batch \<Rightarrow> [open_batch])"
  by (cases b) (auto simp add: add_cell_def finish_row_def Let_def split: option.splits)

theorem batcher_closes_batches_witness:
  "add_cell 0 0 8 16 255 (add_cell 0 0 8 16 0 RectangleBatcher_new) =
     \<lparr>batches = [\<lparr>rb_x = 0, rb_y = 0, rb_width = 8, rb_height = 16, rb_bg_rgb = 0\<rparr>],
      current_batch = Some \<lparr>rb_x = 0, rb_y = 0, rb_width = 8, rb_height = 16, rb_bg_rgb = 255\<rparr>\<rparr>"
proof -
  let ?batch = "\<lparr>rb_x = 0, rb_y = 0, rb_width = 8, rb_height = 16, rb_bg_rgb = 0\<rparr>"
  let ?b = "add_cell 0 0 8 16 0 RectangleBatcher_new"
  have b: "?b = \<lparr>batches = [], current_batch = Some ?batch\<rparr>"
    by (simp add: add_cell_def RectangleBatcher_new_def)
  then have h: "current_batch ?b = Some ?batch \<and>
    (rb_bg_rgb ?batch \<noteq> 255 \<or> eps_001f \<le> \<bar>rb_x ?batch + rb_width ?batch - 0\<bar> \<or>
     eps_001f \<le> \<bar>rb_y ?batch - 0\<bar>)" by simp
  from batcher_closes_batches [of ?b ?batch 255 0 0 8 16] h
  have "add_cell 0 0 8 16 255 ?b =
        \<lparr>batches = batches ?b @ [?batch],
         current_batch = Some \<lparr>rb_x = 0, rb_y = 0, rb_width = 8, rb_height = 16, rb_bg_rgb = 255\<rparr>\<rparr>"
    by blast
  then show ?thesis by (simp add: b)
qed

lemma bg_plain:
  "render_backgrounds (sample_frame plain_row) RectangleBatcher_new =
     Inr \<lparr>batches = [\<lparr>rb_x = 0, rb_y = 0, rb_width = 24, rb_height = 16, rb_bg_rgb = 0\<rparr>],
          current_batch = None\<rparr>"
  by (simp add: render_backgrounds_def bg_rows.simps bg_cols.simps sample_dirty_cells
      sample_frame_fields grid_at_def plain_row_def sample_cell_def background_cell_def
      Let_def is_variation_selector_def sample_pairs_def ttk_to_cg_y_def add_cell_def
      eps_001f_def finish_row_def RectangleBatcher_new_def)

text \<open>
  A sample frame (a frame of one row \<open>A\<close>, space, \<open>B\<close> in one colour pair without
  attributes). The background pass covers the three cells with a single rectangle of width
  \<open>3 * char_width\<close>; the character pass draws two runs, \<open>A\<close> at column 0 and
  \<open>B\<close> at column 2, the plain space being excluded and closing the first run.
\<close>

theorem scenario_plain_space_splits_runs:
  "map_sum id (fst \<circ> get_batches) (render_backgrounds (sample_frame plain_row) RectangleBatcher_new) =
     Inr [\<lparr>rb_x = 0, rb_y = 0, rb_width = 24, rb_height = 16, rb_bg_rgb = 0\<rparr>] \<and>
   map_sum id rs_drawn (render_characters sample_natives (sample_frame plain_row) (fresh_caches 7)) =
     Inr [\<lparr>cb_text = [0x41], cb_is_wide = [False], cb_font_attributes = 0, cb_fg_rgb = 16777215,
           cb_underline = False, cb_x = 0, cb_y = 0, cb_font_index = - 1\<rparr>,
          \<lparr>cb_text = [0x42], cb_is_wide = [False], cb_font_attributes = 0, cb_fg_rgb = 16777215,
           cb_underline = False, cb_x = 16, cb_y = 0, cb_font_index = - 1\<rparr>]"
proof -
  have "map_sum id rs_drawn (render_characters sample_natives (sample_frame plain_row) (fresh_caches 7)) =
     Inr [\<lparr>cb_text = [0x41], cb_is_wide = [False], cb_font_attributes = 0, cb_fg_rgb = 16777215,
           cb_underline = False, cb_x = 0, cb_y = 0, cb_font_index = - 1\<rparr>,
          \<lparr>cb_text = [0x42], cb_is_wide = [False], cb_font_attributes = 0, cb_fg_rgb = 16777215,
           cb_underline = False, cb_x = 16, cb_y = 0, cb_font_index = - 1\<rparr>]"
    by (simp add: render_characters_def char_rows.simps char_cols.simps sample_dirty_cells
      sample_frame_fields grid_at_def plain_row_def sample_cell_def character_cell_def
      combine_selector_def Let_def is_variation_selector_def sample_pairs_def ttk_to_cg_y_def
      eps_001f_def finish_batch_def draw_character_batch_def expected_x_def
      get_font_index_for_character_def get_attributes_def make_key_ex fresh_caches_def
      AttributeDictCache_new_def FontCache_new_def ColorCache_new_def get_font_def rgb_ex
      get_color_def pack_ex2 sample_natives_def size_t_incr_def SIZE_MAX_def)
  then show ?thesis by (simp add: bg_plain get_batches_def finish_row_def)
qed

end
